theory Spec2Isabelle
  imports Main "HOL-Library.Word" "HOL-Library.Multiset"
begin

section \<open>The three services\<close>

text \<open>
  The repository holds three near-duplicate HTTP services, each a \<^verbatim>\<open>package main\<close>:
  \<^item> \<open>Basic\<close>: \<^verbatim>\<open>src/main.go\<close> (port 8080, request logging, \<^verbatim>\<open>DEBUG\<close> switch);
  \<^item> \<open>Periodic\<close>: the first file of \<^verbatim>\<open>src/unnamed/part_000\<close> (port 8090, the global
    \<^verbatim>\<open>requestCount\<close>, heartbeat and background worker);
  \<^item> \<open>Structured\<close>: the second file of \<^verbatim>\<open>src/unnamed/part_000\<close> (JSON logging with levels,
    the request-id middleware, \<^verbatim>\<open>PORT\<close>, \<^verbatim>\<open>LOG_LEVEL\<close>, \<^verbatim>\<open>STARTUP_DELAY\<close>).
\<close>

datatype variant = Basic | Periodic | Structured

text \<open>
  What \<^verbatim>\<open>os.Getenv\<close> answers. \<open>STARTUP_DELAY\<close> is held as
  \<^verbatim>\<open>time.ParseDuration\<close> returned it, in milliseconds (0 when the variable is unset or
  does not parse: the program discards the parse error).
\<close>

record environ =
  DEBUG_var :: string
  PORT_var :: string
  LOG_LEVEL_var :: string
  STARTUP_DELAY :: int

section \<open>Log levels and log output\<close>

text \<open>
  \<^verbatim>\<open>type LogLevel int\<close> with \<^verbatim>\<open>DEBUG, INFO, WARN, ERROR = iota\<close>: a log level is an
  integer, and only the values 0 to 3 have a name. The type is kept an integer here, so
  that \<^verbatim>\<open>String\<close> keeps its \<^verbatim>\<open>default\<close> branch.
\<close>

type_synonym LogLevel = int

definition DEBUG :: LogLevel where "DEBUG = 0"
definition INFO :: LogLevel where "INFO = 1"
definition WARN :: LogLevel where "WARN = 2"
definition ERROR :: LogLevel where "ERROR = 3"

text \<open>\<^verbatim>\<open>func (l LogLevel) String() string\<close>\<close>

definition LogLevel_String :: "LogLevel \<Rightarrow> string" where
  "LogLevel_String l =
     (if l = DEBUG then ''debug''
      else if l = INFO then ''info''
      else if l = WARN then ''warn''
      else if l = ERROR then ''error''
      else ''unknown'')"

text \<open>\<^verbatim>\<open>func parseLogLevel(v string) LogLevel\<close>\<close>

definition parseLogLevel :: "string \<Rightarrow> LogLevel" where
  "parseLogLevel v =
     (if v = ''debug'' then DEBUG
      else if v = ''warn'' then WARN
      else if v = ''error'' then ERROR
      else INFO)"

text \<open>
  Standard output is a list of lines, oldest first. A line of the \<^verbatim>\<open>log.Logger\<close> of
  \<open>Basic\<close> and \<open>Periodic\<close> is kept as the call that printed it: the format string of the
  source and its arguments (the timestamp prefix is left out; \<open>D\<close> is a
  \<^verbatim>\<open>time.Duration\<close> in milliseconds, \<open>Q\<close> a string printed with \<^verbatim>\<open>%q\<close>). A line of the JSON logger
  of \<open>Structured\<close> is the map that \<^verbatim>\<open>json.Marshal\<close> receives.
\<close>

datatype arg = S string | Q string | N nat | B bool | D nat

datatype jval = JStr string | JInt int | JTime nat | JDur int

datatype logline =
    Println string
  | Printf string "arg list"
  | Json "string \<rightharpoonup> jval"

text \<open>
  \<^verbatim>\<open>func (lg *Logger) log(level LogLevel, msg string, fields map[string]any)\<close>: nothing
  below the logger's level; otherwise the entry \<open>ts, level, msg\<close>, overwritten by the
  fields. \<open>ts\<close> is the clock reading at the call, in milliseconds.
\<close>

record Logger =
  level :: LogLevel

definition NewLogger :: "LogLevel \<Rightarrow> Logger" where
  "NewLogger lv = \<lparr>level = lv\<rparr>"

definition Logger_log ::
  "Logger \<Rightarrow> nat \<Rightarrow> LogLevel \<Rightarrow> string \<Rightarrow> (string \<rightharpoonup> jval) \<Rightarrow> logline list" where
  "Logger_log lg ts lv msg flds =
     (if lv < level lg then []
      else [Json ([''ts'' \<mapsto> JTime ts, ''level'' \<mapsto> JStr (LogLevel_String lv),
                   ''msg'' \<mapsto> JStr msg] ++ flds)])"

definition Logger_Debug :: "Logger \<Rightarrow> nat \<Rightarrow> string \<Rightarrow> (string \<rightharpoonup> jval) \<Rightarrow> logline list" where
  "Logger_Debug lg ts msg f = Logger_log lg ts DEBUG msg f"

definition Logger_Info :: "Logger \<Rightarrow> nat \<Rightarrow> string \<Rightarrow> (string \<rightharpoonup> jval) \<Rightarrow> logline list" where
  "Logger_Info lg ts msg f = Logger_log lg ts INFO msg f"

definition Logger_Warn :: "Logger \<Rightarrow> nat \<Rightarrow> string \<Rightarrow> (string \<rightharpoonup> jval) \<Rightarrow> logline list" where
  "Logger_Warn lg ts msg f = Logger_log lg ts WARN msg f"

definition Logger_Error :: "Logger \<Rightarrow> nat \<Rightarrow> string \<Rightarrow> (string \<rightharpoonup> jval) \<Rightarrow> logline list" where
  "Logger_Error lg ts msg f = Logger_log lg ts ERROR msg f"

text \<open>The logger that \<^verbatim>\<open>main\<close> of \<open>Structured\<close> builds from \<^verbatim>\<open>LOG_LEVEL\<close>.\<close>

definition logger_of :: "environ \<Rightarrow> Logger" where
  "logger_of env = NewLogger (parseLogLevel (LOG_LEVEL_var env))"

section \<open>Requests and response writers\<close>

text \<open>
  A request as the handlers read it. \<open>header\<close> gives the first value of each header
  under its canonical name; \<^verbatim>\<open>Header.Get\<close> answers the empty string for a header that
  is absent.
\<close>

record request =
  Method :: string
  path :: string
  remote :: string
  header :: "string \<rightharpoonup> string"

definition Header_Get :: "(string \<rightharpoonup> string) \<Rightarrow> string \<Rightarrow> string" where
  "Header_Get h k = (case h k of None \<Rightarrow> [] | Some v \<Rightarrow> v)"

definition UserAgent :: "request \<Rightarrow> string" where
  "UserAgent r = Header_Get (header r) ''User-Agent''"

text \<open>
  The \<^verbatim>\<open>http.ResponseWriter\<close> of a connection, as far as the handlers use it: the header
  map a handler may still change (\<open>hdr\<close>), what went out with the status line once the
  header is written (\<open>sent\<close>: the status code and the header map of that moment), and
  the body written so far. A handler is the list of calls it makes on its writer, in
  order.
\<close>

record response =
  hdr :: "string \<rightharpoonup> string"
  sent :: "(int \<times> (string \<rightharpoonup> string)) option"
  body :: string

datatype call = WriteHeader int | Write string | HeaderSet string string | HeaderDel string

definition new_response :: response where
  "new_response = \<lparr>hdr = Map.empty, sent = None, body = []\<rparr>"

text \<open>
  The writer of the connection, for a request of method \<open>m\<close>. \<^verbatim>\<open>WriteHeader\<close> panics on
  a code outside 100..999 (\<open>None\<close>) and does nothing when the header is already out;
  \<^verbatim>\<open>Write\<close> sends status 200 first when no header is out yet, and its bytes go out only
  when the response may have a body: not for a \<^verbatim>\<open>HEAD\<close> request, and not under a status
  1xx, 204 or 304. Informational codes (1xx) are treated as final ones; no handler of the
  repository sends one.
\<close>

definition bodyAllowedForStatus :: "int \<Rightarrow> bool" where
  "bodyAllowedForStatus code \<longleftrightarrow> \<not> (100 \<le> code \<and> code \<le> 199) \<and> code \<noteq> 204 \<and> code \<noteq> 304"

definition conn_WriteHeader :: "int \<Rightarrow> response \<Rightarrow> response option" where
  "conn_WriteHeader code w =
     (if sent w \<noteq> None then Some w
      else if code < 100 \<or> 999 < code then None
      else Some (w\<lparr>sent := Some (code, hdr w)\<rparr>))"

definition conn_Write :: "string \<Rightarrow> string \<Rightarrow> response \<Rightarrow> response" where
  "conn_Write m b w =
     (let w1 = (if sent w = None then w\<lparr>sent := Some (200, hdr w)\<rparr> else w)
      in case sent w1 of
           None \<Rightarrow> w1
         | Some (code, h) \<Rightarrow>
             (if m = ''HEAD'' \<or> \<not> bodyAllowedForStatus code then w1
              else w1\<lparr>body := body w1 @ b\<rparr>))"

fun conn_call :: "string \<Rightarrow> call \<Rightarrow> response \<Rightarrow> response option" where
  "conn_call m (WriteHeader code) w = conn_WriteHeader code w"
| "conn_call m (Write b) w = Some (conn_Write m b w)"
| "conn_call m (HeaderSet k v) w = Some (w\<lparr>hdr := (hdr w)(k \<mapsto> v)\<rparr>)"
| "conn_call m (HeaderDel k) w = Some (w\<lparr>hdr := (hdr w)(k := None)\<rparr>)"

fun conn_calls :: "string \<Rightarrow> call list \<Rightarrow> response \<Rightarrow> response option" where
  "conn_calls m [] w = Some w"
| "conn_calls m (c # cs) w =
     (case conn_call m c w of None \<Rightarrow> None | Some w' \<Rightarrow> conn_calls m cs w')"

text \<open>
  When the handler returns, the server completes the response: a handler that wrote
  nothing answers 200 with an empty body.
\<close>

definition finishRequest :: "response \<Rightarrow> response" where
  "finishRequest w = (if sent w = None then w\<lparr>sent := Some (200, hdr w)\<rparr> else w)"

text \<open>
  \<^verbatim>\<open>type statusRecorder struct { http.ResponseWriter; status int }\<close>. Its
  \<^verbatim>\<open>WriteHeader\<close> stores the code and passes it on; \<^verbatim>\<open>Write\<close> and \<^verbatim>\<open>Header\<close> are the
  embedded writer's own.
\<close>

record statusRecorder =
  ResponseWriter :: response
  status :: int

definition rec_WriteHeader :: "int \<Rightarrow> statusRecorder \<Rightarrow> statusRecorder option" where
  "rec_WriteHeader code r =
     (let r1 = r\<lparr>status := code\<rparr>
      in case conn_WriteHeader code (ResponseWriter r1) of
           None \<Rightarrow> None
         | Some w \<Rightarrow> Some (r1\<lparr>ResponseWriter := w\<rparr>))"

fun rec_call :: "string \<Rightarrow> call \<Rightarrow> statusRecorder \<Rightarrow> statusRecorder option" where
  "rec_call m (WriteHeader code) r = rec_WriteHeader code r"
| "rec_call m c r =
     (case conn_call m c (ResponseWriter r) of
        None \<Rightarrow> None
      | Some w \<Rightarrow> Some (r\<lparr>ResponseWriter := w\<rparr>))"

fun rec_calls :: "string \<Rightarrow> call list \<Rightarrow> statusRecorder \<Rightarrow> statusRecorder option" where
  "rec_calls m [] r = Some r"
| "rec_calls m (c # cs) r =
     (case rec_call m c r of None \<Rightarrow> None | Some r' \<Rightarrow> rec_calls m cs r')"

section \<open>Request identifiers\<close>

text \<open>
  \<^verbatim>\<open>strconv.FormatUint(i, base)\<close> and \<^verbatim>\<open>strconv.FormatInt(i, base)\<close> for the bases the
  program uses (10 and 36): digits \<open>0-9a-z\<close>, most significant first.
\<close>

definition digit :: "nat \<Rightarrow> char" where
  "digit d = (if d < 10 then char_of (48 + d) else char_of (87 + d))"

function FormatUint :: "nat \<Rightarrow> nat \<Rightarrow> string" where
  "FormatUint i base =
     (if base < 2 \<or> i < base then [digit i]
      else FormatUint (i div base) base @ [digit (i mod base)])"
  by pat_completeness auto
termination
  by (relation "measure (\<lambda>(i, base). i)") auto

declare FormatUint.simps [simp del]

definition FormatInt :: "int \<Rightarrow> nat \<Rightarrow> string" where
  "FormatInt i base =
     (if i < 0 then ''-'' @ FormatUint (nat (- i)) base else FormatUint (nat i) base)"

section \<open>The state of a running service\<close>

text \<open>
  What the handlers and the log calls can reach: the clock (\<open>now\<close>, in milliseconds),
  standard output, and the \<^verbatim>\<open>uint64\<close> globals \<^verbatim>\<open>requestCount\<close> of \<open>Periodic\<close> and
  \<^verbatim>\<open>reqCounter\<close> of \<open>Structured\<close>.
\<close>

record globals =
  now :: nat
  out :: "logline list"
  requestCount :: "64 word"
  reqCounter :: "64 word"

definition emit :: "logline list \<Rightarrow> globals \<Rightarrow> globals" where
  "emit ls g = g\<lparr>out := out g @ ls\<rparr>"

text \<open>
  \<^verbatim>\<open>func requestID() string\<close>: \<^verbatim>\<open>atomic.AddUint64(&reqCounter, 1)\<close> gives the new
  value of the counter; \<open>rnd\<close> is what \<^verbatim>\<open>rand.Int63()\<close> answers.
\<close>

definition requestID :: "int \<Rightarrow> globals \<Rightarrow> string \<times> globals" where
  "requestID rnd g =
     (let id = reqCounter g + 1
      in (FormatUint (unat id) 10 @ ''-'' @ FormatInt rnd 36, g\<lparr>reqCounter := id\<rparr>))"

section \<open>Handlers\<close>

definition newline :: string where
  "newline = [CHR 0x0A]"

definition debug :: "environ \<Rightarrow> bool" where
  "debug env = (DEBUG_var env = ''true'')"

text \<open>\<^verbatim>\<open>func logRequest(logger *log.Logger, r *http.Request)\<close> of \<open>Basic\<close>.\<close>

definition logRequest :: "request \<Rightarrow> globals \<Rightarrow> globals" where
  "logRequest r g =
     emit [Printf ''request method=%s path=%s remote=%s user_agent=%q''
             [S (Method r), S (path r), S (remote r), Q (UserAgent r)]] g"

text \<open>
  A handler gives the calls it makes on its response writer and the globals it leaves.
  The handlers registered for \<^verbatim>\<open>"/"\<close> and for \<^verbatim>\<open>"/health"\<close>:
\<close>

type_synonym handler = "request \<Rightarrow> globals \<Rightarrow> call list \<times> globals"

fun root_handler :: "variant \<Rightarrow> environ \<Rightarrow> handler" where
  "root_handler Basic env r g =
     (let g1 = logRequest r g;
          g2 = (if debug env then emit [Println ''[DEBUG] handling root request''] g1 else g1)
      in ([WriteHeader 200, Write (''Hello from Go on port 8080!'' @ newline)], g2))"
| "root_handler Periodic env r g =
     (let g1 = g\<lparr>requestCount := requestCount g + 1\<rparr>;
          g2 = emit [Printf ''request received method=%s path=%s remote=%s''
                       [S (Method r), S (path r), S (remote r)]] g1
      in ([WriteHeader 200, Write (''hello'' @ newline)], g2))"
| "root_handler Structured env r g =
     ([Write (''hello from containerized go service'' @ newline)], g)"

fun health_handler :: "variant \<Rightarrow> handler" where
  "health_handler Basic r g = ([WriteHeader 200, Write ''ok''], logRequest r g)"
| "health_handler Periodic r g = ([WriteHeader 200, Write ''ok''], g)"
| "health_handler Structured r g = ([WriteHeader 200, Write ''ok''], g)"

text \<open>
  The \<^verbatim>\<open>http.ServeMux\<close> with these two patterns: \<^verbatim>\<open>"/health"\<close> matches that path only,
  \<^verbatim>\<open>"/"\<close> every other path. (Request paths are taken in cleaned form; for a path with
  \<^verbatim>\<open>..\<close> or a doubled slash the mux answers a redirect and calls neither handler.)
\<close>

definition mux :: "variant \<Rightarrow> environ \<Rightarrow> handler" where
  "mux v env r g = (if path r = ''/health'' then health_handler v r g else root_handler v env r g)"

text \<open>
  \<^verbatim>\<open>func withMiddleware(next http.Handler, logger *Logger) http.Handler\<close>. \<open>took\<close> is the
  time \<^verbatim>\<open>next.ServeHTTP\<close> takes. A panic of the wrapped handler (\<open>None\<close>) leaves the
  function before the completion log.
\<close>

definition withMiddleware ::
  "handler \<Rightarrow> Logger \<Rightarrow> int \<Rightarrow> nat \<Rightarrow> request \<Rightarrow> response \<Rightarrow> globals
     \<Rightarrow> response option \<times> globals" where
  "withMiddleware next logger rnd took r w g =
     (let start = now g;
          rid0 = Header_Get (header r) ''X-Request-Id'';
          (rid, g1) = (if rid0 = [] then requestID rnd g else (rid0, g));
          rec = \<lparr>ResponseWriter = w\<lparr>hdr := (hdr w)(''X-Request-Id'' \<mapsto> rid)\<rparr>, status = 200\<rparr>;
          g2 = emit (Logger_Debug logger (now g1) ''request started''
                  [''request_id'' \<mapsto> JStr rid, ''method'' \<mapsto> JStr (Method r),
                   ''path'' \<mapsto> JStr (path r)]) g1;
          (calls, g3) = next r g2;
          g4 = g3\<lparr>now := now g3 + took\<rparr>
      in case rec_calls (Method r) calls rec of
           None \<Rightarrow> (None, g4)
         | Some rec' \<Rightarrow>
             (Some (ResponseWriter rec'),
              emit (Logger_Info logger (now g4) ''request completed''
                  [''request_id'' \<mapsto> JStr rid, ''method'' \<mapsto> JStr (Method r),
                   ''path'' \<mapsto> JStr (path r), ''status'' \<mapsto> JInt (status rec'),
                   ''duration'' \<mapsto> JInt (int (now g4 - start))]) g4))"

text \<open>
  The \<^verbatim>\<open>Handler\<close> of the \<^verbatim>\<open>http.Server\<close>, run on the fresh writer of a connection:
  the mux itself in \<open>Basic\<close> and \<open>Periodic\<close>, the mux under the middleware in
  \<open>Structured\<close>. \<open>None\<close>: the handler panicked and the connection is cut.
\<close>

definition serve ::
  "variant \<Rightarrow> environ \<Rightarrow> int \<Rightarrow> nat \<Rightarrow> request \<Rightarrow> globals \<Rightarrow> response option \<times> globals" where
  "serve v env rnd took r g =
     (case v of
        Structured \<Rightarrow>
          (let (w, g') = withMiddleware (mux Structured env) (logger_of env) rnd took r
                           new_response g
           in (map_option finishRequest w, g'))
      | _ \<Rightarrow>
          (let (calls, g1) = mux v env r g
           in (map_option finishRequest (conn_calls (Method r) calls new_response),
               g1\<lparr>now := now g1 + took\<rparr>)))"

section \<open>Running a service\<close>

text \<open>
  Where \<^verbatim>\<open>main\<close> stands: before \<^verbatim>\<open>go func()\<close>; blocked in \<^verbatim>\<open><-sig\<close>; inside
  \<^verbatim>\<open>server.Shutdown(ctx)\<close>; returned.
\<close>

datatype mainpc = MInit | MWait | MShutdown | MDone

text \<open>
  Where the goroutine that runs \<^verbatim>\<open>server.ListenAndServe()\<close> stands: not started; in the
  call, listener not bound yet; in the call, in the accept loop; the call returned
  \<^verbatim>\<open>http.ErrServerClosed\<close>; the call returned another error before the listener was
  bound, or after.
\<close>

datatype listen =
  NotCalled | Binding | Accepting | ServerClosed | BindFailed string | ServeFailed string

datatype signal = SIGINT | SIGTERM

datatype error = ErrServerClosed | DeadlineExceeded | OtherError string

fun Error_text :: "error \<Rightarrow> string" where
  "Error_text ErrServerClosed = ''http: Server closed''"
| "Error_text DeadlineExceeded = ''context deadline exceeded''"
| "Error_text (OtherError e) = e"

text \<open>
  The state of the process. \<open>deadline\<close> is the deadline of the context given to
  \<^verbatim>\<open>Shutdown\<close>. \<open>inflight\<close> are the requests of accepted connections that have no
  response yet, \<open>answered\<close> the requests with the response each got, \<open>aborted\<close> the
  requests whose connection was cut without a response. \<open>shutdown_err\<close> is the
  \<^verbatim>\<open>err\<close> that \<^verbatim>\<open>server.Shutdown(ctx)\<close> returned, \<open>exit_status\<close> the exit status once
  the process has ended, \<open>job\<close> the start of the background job that is running, if one
  is, and \<open>glob\<close> the globals.
\<close>

record config =
  mainpc :: mainpc
  serving :: listen
  deadline :: nat
  inflight :: "request list"
  answered :: "(request \<times> response) list"
  aborted :: "request list"
  shutdown_err :: "error option"
  exit_status :: "nat option"
  job :: "nat option"
  glob :: globals

definition init :: config where
  "init = \<lparr>mainpc = MInit, serving = NotCalled, deadline = 0, inflight = [], answered = [],
            aborted = [], shutdown_err = None, exit_status = None, job = None,
            glob = \<lparr>now = 0, out = [], requestCount = 0, reqCounter = 0\<rparr>\<rparr>"

text \<open>
  A run of a service is a sequence of events: steps of \<^verbatim>\<open>main\<close>, of the goroutines it
  starts and of the \<^verbatim>\<open>net/http\<close> server, and inputs of the environment. \<^verbatim>\<open>net/http\<close>
  and the operating system are not code of the repository; the guard of each event
  states what their documentation promises, and each effect is the code of the
  repository that runs at the event.

  \<^item> \<open>Spawn\<close>: \<^verbatim>\<open>main\<close> runs up to \<^verbatim>\<open><-sig\<close> and the goroutine up to its call of
    \<^verbatim>\<open>ListenAndServe\<close>. The statements from \<^verbatim>\<open>go func()\<close> to \<^verbatim>\<open>signal.Notify\<close>, none of
    which blocks, are one step.
  \<^item> \<open>EarlySignal s\<close>: the operating system delivers \<open>s\<close> before \<^verbatim>\<open>main\<close> has reached
    \<^verbatim>\<open>signal.Notify\<close> (during the sleep of \<^verbatim>\<open>STARTUP_DELAY\<close>, for one). Nothing of the
    program catches it: the signal ends the process, which a shell reports as status
    128 plus the number of the signal. The lines \<^verbatim>\<open>main\<close> may have printed before are
    not modelled. (A signal between \<^verbatim>\<open>go func()\<close> and \<^verbatim>\<open>signal.Notify\<close> ends the process
    in the same way; \<open>Spawn\<close> being one step, there is no state for it.)
  \<^item> \<open>Bound\<close>: \<^verbatim>\<open>ListenAndServe\<close> has bound the listener and enters the accept loop.
  \<^item> \<open>ListenReturned err\<close>: \<^verbatim>\<open>ListenAndServe\<close> returns \<open>err\<close> (never nil):
    \<^verbatim>\<open>ErrServerClosed\<close> once \<^verbatim>\<open>Shutdown\<close> has been called, another error only before.
    The goroutine's \<^verbatim>\<open>if\<close> is part of the step: on an error other than
    \<^verbatim>\<open>ErrServerClosed\<close> it logs and calls \<^verbatim>\<open>os.Exit(1)\<close>.
  \<^item> \<open>Accept r\<close>: the accept loop takes a new connection, on which request \<open>r\<close>
    arrives; the listener is open from \<open>Bound\<close> until \<^verbatim>\<open>Shutdown\<close> is called, which
    closes it first of all.
  \<^item> \<open>Handle i rnd took\<close>: the handler runs for the \<open>i\<close>-th request in flight and its
    response goes out; \<open>rnd\<close> is the next \<^verbatim>\<open>rand.Int63()\<close>, \<open>took\<close> the time the handler
    takes.
  \<^item> \<open>Signal s\<close>: the operating system delivers \<open>s\<close>, one of the two signals of
    \<^verbatim>\<open>signal.Notify\<close>, once \<^verbatim>\<open>signal.Notify\<close> is in effect: the signal goes to the
    channel. \<^verbatim>\<open>main\<close>, blocked in \<^verbatim>\<open><-sig\<close>, logs a line and calls
    \<^verbatim>\<open>Shutdown\<close> with the context of the timeout; a later signal stays in the channel,
    which is not read again.
  \<^item> \<open>Tick\<close>: a millisecond passes. The context expires at its deadline: inside
    \<^verbatim>\<open>Shutdown\<close> the clock does not pass the deadline before \<^verbatim>\<open>Shutdown\<close> returns.
  \<^item> \<open>ShutdownReturned err\<close>: \<^verbatim>\<open>Shutdown\<close> returns nil once no request is in flight,
    or the error of the context when the deadline is reached with requests in flight
    (closing the listener is taken to succeed, and the intervals at which \<^verbatim>\<open>Shutdown\<close>
    polls are not modelled). \<^verbatim>\<open>main\<close> logs the result and returns, which ends the
    process with status 0 and cuts the connections that are left.
  \<^item> \<open>HeartbeatTick\<close>, \<open>WorkerStart\<close>, \<open>WorkerDone\<close>: the tickers of \<open>Periodic\<close> fire.
    The heartbeat line is printed at the tick, so the uptime it shows is the interval;
    the background job sleeps 500 ms between its two lines.
\<close>

datatype event =
    Spawn
  | EarlySignal signal
  | Bound
  | ListenReturned error
  | Accept request
  | Handle nat int nat
  | Signal signal
  | Tick
  | ShutdownReturned "error option"
  | HeartbeatTick
  | WorkerStart
  | WorkerDone

text \<open>\<^verbatim>\<open>port\<close> and \<^verbatim>\<open>Addr\<close>, and the timeout of the shutdown context in milliseconds.\<close>

definition port :: "environ \<Rightarrow> string" where
  "port env = (if PORT_var env = [] then ''8080'' else PORT_var env)"

fun Addr :: "variant \<Rightarrow> environ \<Rightarrow> string" where
  "Addr Basic env = '':8080''"
| "Addr Periodic env = '':8090''"
| "Addr Structured env = '':'' @ port env"

fun timeout :: "variant \<Rightarrow> nat" where
  "timeout Basic = 5000"
| "timeout Periodic = 5000"
| "timeout Structured = 10000"

text \<open>The lines of \<^verbatim>\<open>main\<close> from its start to \<^verbatim>\<open><-sig\<close>, with the goroutine's first.\<close>

fun startup :: "variant \<Rightarrow> environ \<Rightarrow> globals \<Rightarrow> globals" where
  "startup Basic env g =
     emit [Println ''service starting'',
           Printf (''debug mode: %v'' @ newline) [B (debug env)],
           Println ''http server listening on :8080''] g"
| "startup Periodic env g =
     emit [Println ''service starting'', Println ''http server listening on :8090''] g"
| "startup Structured env g =
     (let g1 = (if 0 < STARTUP_DELAY env
                then (emit (Logger_Info (logger_of env) (now g) ''startup delay''
                              [''delay'' \<mapsto> JDur (STARTUP_DELAY env)]) g)
                       \<lparr>now := now g + nat (STARTUP_DELAY env)\<rparr>
                else g)
      in emit (Logger_Info (logger_of env) (now g1) ''http server starting''
                 [''port'' \<mapsto> JStr (port env)]) g1)"

text \<open>
  The body of \<^verbatim>\<open>if err := server.ListenAndServe(); err != nil && err != http.ErrServerClosed\<close>:
  the line logged before \<^verbatim>\<open>os.Exit(1)\<close> (\<^verbatim>\<open>logger.Fatalf\<close> in \<open>Basic\<close>).
\<close>

fun listen_failed :: "variant \<Rightarrow> environ \<Rightarrow> error \<Rightarrow> globals \<Rightarrow> globals" where
  "listen_failed Basic env err g = emit [Printf ''listen error: %v'' [S (Error_text err)]] g"
| "listen_failed Periodic env err g = emit [Printf ''server error: %v'' [S (Error_text err)]] g"
| "listen_failed Structured env err g =
     emit (Logger_Error (logger_of env) (now g) ''http server error''
             [''error'' \<mapsto> JStr (Error_text err)]) g"

text \<open>The line logged after \<^verbatim>\<open><-sig\<close>.\<close>

fun signal_received :: "variant \<Rightarrow> environ \<Rightarrow> globals \<Rightarrow> globals" where
  "signal_received Basic env g = emit [Println ''shutdown signal received''] g"
| "signal_received Periodic env g = emit [Println ''shutdown signal received''] g"
| "signal_received Structured env g =
     emit (Logger_Warn (logger_of env) (now g) ''shutdown signal received'' Map.empty) g"

text \<open>\<^verbatim>\<open>if err := server.Shutdown(ctx); err != nil { ... } else { ... }\<close>\<close>

fun shutdown_report :: "variant \<Rightarrow> environ \<Rightarrow> error option \<Rightarrow> globals \<Rightarrow> globals" where
  "shutdown_report Basic env (Some err) g =
     emit [Printf (''server shutdown error: %v'' @ newline) [S (Error_text err)]] g"
| "shutdown_report Basic env None g = emit [Println ''server shutdown complete''] g"
| "shutdown_report Periodic env (Some err) g =
     emit [Printf ''graceful shutdown failed: %v'' [S (Error_text err)]] g"
| "shutdown_report Periodic env None g = emit [Println ''server stopped cleanly''] g"
| "shutdown_report Structured env (Some err) g =
     emit (Logger_Error (logger_of env) (now g) ''graceful shutdown failed''
             [''error'' \<mapsto> JStr (Error_text err)]) g"
| "shutdown_report Structured env None g =
     emit (Logger_Info (logger_of env) (now g) ''server stopped'' Map.empty) g"

text \<open>\<^verbatim>\<open>syscall.SIGINT\<close> and \<^verbatim>\<open>syscall.SIGTERM\<close> as numbers.\<close>

fun signum :: "signal \<Rightarrow> nat" where
  "signum SIGINT = 2"
| "signum SIGTERM = 15"

text \<open>The process ends: what is still in flight is cut.\<close>

definition exit_process :: "nat \<Rightarrow> config \<Rightarrow> config" where
  "exit_process n c =
     c\<lparr>exit_status := Some n, aborted := aborted c @ inflight c, inflight := []\<rparr>"

text \<open>One event; \<open>None\<close> when the event cannot happen in the state.\<close>

fun step :: "variant \<Rightarrow> environ \<Rightarrow> event \<Rightarrow> config \<Rightarrow> config option" where
  "step v env Spawn c =
     (if exit_status c = None \<and> mainpc c = MInit
      then Some (c\<lparr>glob := startup v env (glob c), mainpc := MWait, serving := Binding\<rparr>)
      else None)"
| "step v env (EarlySignal s) c =
     (if exit_status c = None \<and> mainpc c = MInit
      then Some (exit_process (128 + signum s) c)
      else None)"
| "step v env Bound c =
     (if exit_status c = None \<and> serving c = Binding \<and> mainpc c = MWait
      then Some (c\<lparr>serving := Accepting\<rparr>)
      else None)"
| "step v env (ListenReturned err) c =
     (if exit_status c = None \<and> (serving c = Binding \<or> serving c = Accepting)
      then (if err \<noteq> ErrServerClosed
            then (if mainpc c = MWait
                  then Some (exit_process 1
                         (c\<lparr>glob := listen_failed v env err (glob c),
                            serving := (if serving c = Binding then BindFailed (Error_text err)
                                        else ServeFailed (Error_text err))\<rparr>))
                  else None)
            else (if mainpc c = MShutdown then Some (c\<lparr>serving := ServerClosed\<rparr>) else None))
      else None)"
| "step v env (Accept r) c =
     (if exit_status c = None \<and> serving c = Accepting \<and> mainpc c = MWait
      then Some (c\<lparr>inflight := inflight c @ [r]\<rparr>)
      else None)"
| "step v env (Handle i rnd took) c =
     (if exit_status c = None \<and> i < length (inflight c)
         \<and> (mainpc c = MShutdown \<longrightarrow> now (glob c) + took \<le> deadline c)
      then (let r = inflight c ! i;
                (w, g) = serve v env rnd took r (glob c);
                c1 = c\<lparr>glob := g, inflight := take i (inflight c) @ drop (Suc i) (inflight c)\<rparr>
            in case w of
                 None \<Rightarrow> Some (c1\<lparr>aborted := aborted c @ [r]\<rparr>)
               | Some w' \<Rightarrow> Some (c1\<lparr>answered := answered c @ [(r, w')]\<rparr>))
      else None)"
| "step v env (Signal s) c =
     (if exit_status c = None \<and> mainpc c = MWait
      then Some (c\<lparr>glob := signal_received v env (glob c), mainpc := MShutdown,
                   deadline := now (glob c) + timeout v\<rparr>)
      else if exit_status c = None \<and> mainpc c = MShutdown then Some c
      else None)"
| "step v env Tick c =
     (if exit_status c = None \<and> (mainpc c = MShutdown \<longrightarrow> now (glob c) < deadline c)
      then Some (c\<lparr>glob := (glob c)\<lparr>now := now (glob c) + 1\<rparr>\<rparr>)
      else None)"
| "step v env (ShutdownReturned err) c =
     (if exit_status c = None \<and> mainpc c = MShutdown
         \<and> (case err of
               None \<Rightarrow> inflight c = []
             | Some e \<Rightarrow> e = DeadlineExceeded \<and> inflight c \<noteq> [] \<and> now (glob c) = deadline c)
      then Some (exit_process 0
                   (c\<lparr>glob := shutdown_report v env err (glob c), mainpc := MDone,
                      shutdown_err := err\<rparr>))
      else None)"
| "step v env HeartbeatTick c =
     (if exit_status c = None \<and> v = Periodic \<and> mainpc c \<noteq> MInit
      then Some (c\<lparr>glob := emit [Printf ''heartbeat alive=true uptime=%s requests=%d''
                                     [D 5000, N (unat (requestCount (glob c)))]] (glob c)\<rparr>)
      else None)"
| "step v env WorkerStart c =
     (if exit_status c = None \<and> v = Periodic \<and> mainpc c \<noteq> MInit \<and> job c = None
      then Some (c\<lparr>glob := emit [Println ''background job started''] (glob c),
                   job := Some (now (glob c))\<rparr>)
      else None)"
| "step v env WorkerDone c =
     (if exit_status c = None \<and> v = Periodic
         \<and> (case job c of None \<Rightarrow> False | Some t \<Rightarrow> t + 500 \<le> now (glob c))
      then Some (c\<lparr>glob := emit [Println ''background job completed''] (glob c), job := None\<rparr>)
      else None)"

declare step.simps [simp del]

fun run :: "variant \<Rightarrow> environ \<Rightarrow> event list \<Rightarrow> config \<Rightarrow> config option" where
  "run v env [] c = Some c"
| "run v env (e # es) c = (case step v env e c of None \<Rightarrow> None | Some c' \<Rightarrow> run v env es c')"

section \<open>The lifecycle of the server handle\<close>

text \<open>
  The programs keep no state variable for the listener; the state of the specification's
  server handle is read off where \<^verbatim>\<open>main\<close> and the serving goroutine stand.
\<close>

datatype state = Idle | Starting | Running | Stopping | Stopped | Failed

fun handle_state :: "config \<Rightarrow> state" where
  "handle_state c =
     (case serving c of
        BindFailed e \<Rightarrow> Failed
      | ServeFailed e \<Rightarrow> Failed
      | _ \<Rightarrow>
        (case mainpc c of
           MInit \<Rightarrow> Idle
         | MWait \<Rightarrow> (if serving c = Accepting then Running else Starting)
         | MShutdown \<Rightarrow> Stopping
         | MDone \<Rightarrow> Stopped))"

section \<open>Sample inputs\<close>

text \<open>
  An environment with no variable set; requests for the two routes, and one that brings
  its own \<^verbatim>\<open>X-Request-Id\<close>; a service that is up (the state after \<open>Spawn\<close> and
  \<open>Bound\<close> but for the lines printed on the way); and the globals at the start.
\<close>

definition env0 :: environ where
  "env0 = \<lparr>DEBUG_var = [], PORT_var = [], LOG_LEVEL_var = [], STARTUP_DELAY = 0\<rparr>"

definition get_root :: request where
  "get_root = \<lparr>Method = ''GET'', path = ''/'', remote = ''10.0.0.1:4000'', header = Map.empty\<rparr>"

definition get_health :: request where
  "get_health = \<lparr>Method = ''GET'', path = ''/health'', remote = ''10.0.0.1:4000'', header = Map.empty\<rparr>"

definition running :: config where
  "running = init\<lparr>mainpc := MWait, serving := Accepting\<rparr>"

definition head_health :: request where
  "head_health = \<lparr>Method = ''HEAD'', path = ''/health'', remote = ''10.0.0.1:4000'', header = Map.empty\<rparr>"

definition with_id :: request where
  "with_id = \<lparr>Method = ''GET'', path = ''/'', remote = ''10.0.0.1:4000'',
               header = [''X-Request-Id'' \<mapsto> ''abc'']\<rparr>"

definition g0 :: globals where
  "g0 = \<lparr>now = 0, out = [], requestCount = 0, reqCounter = 0\<rparr>"

text \<open>What a line of the JSON log says of a request that completed.\<close>

fun entry_of :: "logline \<Rightarrow> jval option \<times> jval option" where
  "entry_of (Json m) = (m ''msg'', m ''status'')"
| "entry_of l = (None, None)"

section \<open>What holds of every state a run reaches\<close>

text \<open>
  The exit status follows from where the two threads stand (before \<^verbatim>\<open>main\<close> waits, only
  a signal can have ended the process), a failed \<^verbatim>\<open>ListenAndServe\<close> ended the process
  while \<^verbatim>\<open>main\<close> was waiting, and inside \<^verbatim>\<open>Shutdown\<close> the clock has not passed the
  deadline.
\<close>

fun failed :: "listen \<Rightarrow> bool" where
  "failed (BindFailed e) = True"
| "failed (ServeFailed e) = True"
| "failed s = False"

definition wf :: "config \<Rightarrow> bool" where
  "wf c \<longleftrightarrow>
     exit_status c = (if failed (serving c) then Some 1
                      else if mainpc c = MDone then Some 0
                      else if mainpc c = MInit then exit_status c else None)
     \<and> (mainpc c = MInit \<longrightarrow>
           exit_status c = None \<or> (\<exists>s. exit_status c = Some (128 + signum s)))
     \<and> (failed (serving c) \<longrightarrow> mainpc c = MWait)
     \<and> (mainpc c = MInit \<longleftrightarrow> serving c = NotCalled)
     \<and> (serving c = ServerClosed \<longrightarrow> mainpc c = MShutdown \<or> mainpc c = MDone)
     \<and> (mainpc c = MShutdown \<longrightarrow> now (glob c) \<le> deadline c)"

text \<open>An event with the signal it carries, if any, replaced by \<^verbatim>\<open>SIGINT\<close>.\<close>

fun forget :: "event \<Rightarrow> event" where
  "forget (Signal s) = Signal SIGINT"
| "forget e = e"

section \<open>Evaluation\<close>

lemma handle_state_eq:
  "handle_state c =
     (if failed (serving c) then Failed
      else case mainpc c of
             MInit \<Rightarrow> Idle
           | MWait \<Rightarrow> (if serving c = Accepting then Running else Starting)
           | MShutdown \<Rightarrow> Stopping
           | MDone \<Rightarrow> Stopped)"
  by (cases "serving c") simp_all

declare handle_state.simps [simp del]

lemmas level_defs = DEBUG_def INFO_def WARN_def ERROR_def

lemmas eval_defs = env0_def get_root_def get_health_def head_health_def init_def emit_def
  serve_def mux_def logRequest_def UserAgent_def Header_Get_def debug_def new_response_def
  finishRequest_def conn_WriteHeader_def conn_Write_def bodyAllowedForStatus_def
  exit_process_def newline_def step.simps

lemmas run_defs = eval_defs handle_state_eq withMiddleware_def requestID_def rec_WriteHeader_def
  Let_def

section \<open>Log levels: properties\<close>

lemma LogLevel_String_unknown: "LogLevel_String 7 = ''unknown''"
  by (simp add: LogLevel_String_def level_defs)

lemma parseLogLevel_range: "parseLogLevel v \<in> {DEBUG, INFO, WARN, ERROR}"
  by (simp add: parseLogLevel_def)

text \<open>
  C10. \<^verbatim>\<open>parseLogLevel\<close> returns a level for every string, and \<^verbatim>\<open>INFO\<close> for every
  string other than "debug", "warn" and "error" (the empty string of an unset
  \<^verbatim>\<open>LOG_LEVEL\<close> included); so the name of the parsed level is one of "debug", "info",
  "warn", "error" and never "unknown", although \<^verbatim>\<open>String\<close> does answer "unknown" for
  other integers (\<open>LogLevel_String_unknown\<close>).
\<close>

theorem parseLogLevel_default_info:
  "(v \<notin> {''debug'', ''warn'', ''error''} \<longrightarrow> parseLogLevel v = INFO)
   \<and> LogLevel_String (parseLogLevel v) \<in> {''debug'', ''info'', ''warn'', ''error''}
   \<and> LogLevel_String (parseLogLevel v) \<noteq> ''unknown''"
  by (simp add: parseLogLevel_def LogLevel_String_def level_defs)

theorem parseLogLevel_default_info_witness:
  "parseLogLevel '''' = INFO
   \<and> parseLogLevel ''verbose'' = INFO
   \<and> LogLevel_String (parseLogLevel '''') = ''info''
   \<and> LogLevel_String (parseLogLevel ''warn'') = ''warn''"
  using parseLogLevel_default_info [of "''''"] parseLogLevel_default_info [of "''verbose''"]
  by (simp add: parseLogLevel_def LogLevel_String_def level_defs)

section \<open>Runs\<close>

lemma run_append:
  "run v env (xs @ ys) c = (case run v env xs c of None \<Rightarrow> None | Some c' \<Rightarrow> run v env ys c')"
  by (induction xs arbitrary: c) (auto split: option.splits)

lemma run_snoc:
  "run v env (xs @ [e]) c = (case run v env xs c of None \<Rightarrow> None | Some c' \<Rightarrow> step v env e c')"
  by (simp add: run_append split: option.splits)

text \<open>What one event does to the program counters and the exit status.\<close>

lemma step_alive: "step v env ev c = Some c' \<Longrightarrow> exit_status c = None"
  by (cases ev) (simp_all add: step.simps split: if_splits)

lemma step_mainpc:
  assumes "step v env ev c = Some c'"
  shows "mainpc c' =
     (case ev of Spawn \<Rightarrow> MWait | Signal s \<Rightarrow> MShutdown | ShutdownReturned e \<Rightarrow> MDone
      | _ \<Rightarrow> mainpc c)"
  using assms
  by (cases ev)
    (auto simp: step.simps exit_process_def Let_def split_beta split: if_splits option.splits)

lemma step_serving:
  assumes "step v env ev c = Some c'"
  shows "serving c' =
     (case ev of Spawn \<Rightarrow> Binding | Bound \<Rightarrow> Accepting
      | ListenReturned err \<Rightarrow>
          (if err = ErrServerClosed then ServerClosed
           else if serving c = Binding then BindFailed (Error_text err)
           else ServeFailed (Error_text err))
      | _ \<Rightarrow> serving c)"
  using assms
  by (cases ev)
    (auto simp: step.simps exit_process_def Let_def split_beta split: if_splits option.splits)

lemma step_exit_status:
  assumes "step v env ev c = Some c'"
  shows "exit_status c' =
     (case ev of ListenReturned err \<Rightarrow> (if err = ErrServerClosed then None else Some 1)
      | ShutdownReturned e \<Rightarrow> Some 0
      | EarlySignal s \<Rightarrow> Some (128 + signum s)
      | _ \<Rightarrow> None)"
  using assms
  by (cases ev)
    (auto simp: step.simps exit_process_def Let_def split_beta split: if_splits option.splits)

text \<open>What the state must be for an event to happen.\<close>

lemma step_guard:
  assumes "step v env ev c = Some c'"
  shows "case ev of
           Spawn \<Rightarrow> mainpc c = MInit
         | EarlySignal s \<Rightarrow> mainpc c = MInit
         | Bound \<Rightarrow> serving c = Binding \<and> mainpc c = MWait
         | ListenReturned err \<Rightarrow>
             (serving c = Binding \<or> serving c = Accepting)
             \<and> mainpc c = (if err = ErrServerClosed then MShutdown else MWait)
         | Accept r \<Rightarrow> serving c = Accepting \<and> mainpc c = MWait
         | Signal s \<Rightarrow> mainpc c = MWait \<or> mainpc c = MShutdown
         | ShutdownReturned e \<Rightarrow> mainpc c = MShutdown
         | _ \<Rightarrow> True"
  using assms by (cases ev) (simp_all add: step.simps split: if_splits)

text \<open>What the log calls, the handlers and one event do to the clock.\<close>

lemma emit_simps [simp]:
  "now (emit ls g) = now g" "out (emit ls g) = out g @ ls"
  "requestCount (emit ls g) = requestCount g" "reqCounter (emit ls g) = reqCounter g"
  by (simp_all add: emit_def)

lemma requestID_simps [simp]:
  "now (snd (requestID rnd g)) = now g" "out (snd (requestID rnd g)) = out g"
  "requestCount (snd (requestID rnd g)) = requestCount g"
  "reqCounter (snd (requestID rnd g)) = reqCounter g + 1"
  by (simp_all add: requestID_def Let_def)

lemma mux_now [simp]: "now (snd (mux v env r g)) = now g"
  by (cases v) (simp_all add: mux_def logRequest_def Let_def)

lemma withMiddleware_now:
  assumes "\<And>r g. now (snd (next r g)) = now g"
  shows "now (snd (withMiddleware next lg rnd took r w g)) = now g + took"
  using assms
  by (cases "Header_Get (header r) ''X-Request-Id'' = []")
    (simp_all add: withMiddleware_def Let_def split_beta split: option.splits)

lemma serve_now: "now (snd (serve v env rnd took r g)) = now g + took"
  by (cases v) (simp_all add: serve_def withMiddleware_now split_beta)

lemma report_now [simp]:
  "now (listen_failed v env err g) = now g"
  "now (signal_received v env g) = now g"
  "now (shutdown_report v env e g) = now g"
  by (cases v; cases e; simp)+

lemma startup_now: "now g \<le> now (startup v env g)"
  by (cases v) (simp_all add: Let_def)

lemma step_now:
  assumes "step v env ev c = Some c'"
  shows "now (glob c) \<le> now (glob c')"
    and "mainpc c = MShutdown \<Longrightarrow> now (glob c) \<le> deadline c \<Longrightarrow> now (glob c') \<le> deadline c"
    and "mainpc c = MShutdown \<Longrightarrow> deadline c' = deadline c"
proof -
  have "now (glob c) \<le> now (glob c')
      \<and> (mainpc c = MShutdown \<longrightarrow> now (glob c) \<le> deadline c \<longrightarrow> now (glob c') \<le> deadline c)
      \<and> (mainpc c = MShutdown \<longrightarrow> deadline c' = deadline c)"
  proof (cases ev)
    case Spawn
    then show ?thesis
      using assms startup_now [of "glob c" v env] by (auto simp: step.simps split: if_splits)
  next
    case (Handle i rnd took)
    then show ?thesis
      using assms serve_now [of v env rnd took "inflight c ! i" "glob c"]
      by (auto simp: step.simps Let_def split_beta split: if_splits option.splits)
  qed (use assms in \<open>auto simp: step.simps exit_process_def split: if_splits option.splits\<close>)
  then show "now (glob c) \<le> now (glob c')"
    and "mainpc c = MShutdown \<Longrightarrow> now (glob c) \<le> deadline c \<Longrightarrow> now (glob c') \<le> deadline c"
    and "mainpc c = MShutdown \<Longrightarrow> deadline c' = deadline c"
    by simp_all
qed

lemma step_Signal_deadline:
  "step v env (Signal s) c = Some c' \<Longrightarrow> mainpc c = MWait \<Longrightarrow>
     deadline c' = now (glob c) + timeout v \<and> now (glob c') = now (glob c)"
  by (auto simp: step.simps split: if_splits)

text \<open>Every state a run reaches is well-formed.\<close>

lemma wf_init: "wf init"
  by (simp add: wf_def init_def)

lemma step_wf:
  assumes "step v env ev c = Some c'" and "wf c"
  shows "wf c'"
proof -
  note a = step_alive [OF assms(1)]
  note m = step_mainpc [OF assms(1)]
  note s = step_serving [OF assms(1)]
  note x = step_exit_status [OF assms(1)]
  note g = step_guard [OF assms(1)]
  note n = step_now [OF assms(1)]
  note d = step_Signal_deadline [of v env _ c c']
  have t: "mainpc c' = MShutdown \<longrightarrow> now (glob c') \<le> deadline c'"
  proof (cases "mainpc c = MShutdown")
    case True
    then show ?thesis using n(2,3) assms(2) by (simp add: wf_def)
  next
    case False
    show ?thesis
    proof
      assume "mainpc c' = MShutdown"
      then obtain sg where "ev = Signal sg" and "mainpc c = MWait"
        using m g False by (cases ev) auto
      then show "now (glob c') \<le> deadline c'"
        using d assms(1) by simp
    qed
  qed
  have "exit_status c' = (if failed (serving c') then Some 1
                      else if mainpc c' = MDone then Some 0
                      else if mainpc c' = MInit then exit_status c' else None)
     \<and> (mainpc c' = MInit \<longrightarrow>
           exit_status c' = None \<or> (\<exists>s. exit_status c' = Some (128 + signum s)))
     \<and> (failed (serving c') \<longrightarrow> mainpc c' = MWait)
     \<and> (mainpc c' = MInit \<longleftrightarrow> serving c' = NotCalled)
     \<and> (serving c' = ServerClosed \<longrightarrow> mainpc c' = MShutdown \<or> mainpc c' = MDone)"
    using a m s x g assms(2) unfolding wf_def
    by (cases ev) (auto split: if_splits)
  then show ?thesis
    using t by (simp add: wf_def)
qed

lemma run_wf: "run v env evs c = Some c' \<Longrightarrow> wf c \<Longrightarrow> wf c'"
  by (induction evs arbitrary: c) (auto split: option.splits dest: step_wf)

lemma reachable_wf: "run v env evs init = Some c \<Longrightarrow> wf c"
  using run_wf wf_init by blast

section \<open>Exit status\<close>

lemma signum_simps [simp]:
  "128 + signum s \<noteq> 0" "128 + signum s \<noteq> Suc 0" "signum s = signum s' \<longleftrightarrow> s = s'"
  by (cases s; cases s'; simp)+

text \<open>The exit status is decided by the last event of a run.\<close>

lemma run_exit_status:
  assumes "run v env evs c0 = Some c" and "exit_status c0 = None"
  shows "exit_status c =
     (if evs = [] then None
      else case last evs of
             ListenReturned err \<Rightarrow> (if err = ErrServerClosed then None else Some 1)
           | ShutdownReturned e \<Rightarrow> Some 0
           | EarlySignal s \<Rightarrow> Some (128 + signum s)
           | _ \<Rightarrow> None)"
proof (cases evs rule: rev_cases)
  case Nil
  then show ?thesis using assms by simp
next
  case (snoc es e)
  then obtain c' where "step v env e c' = Some c"
    using assms(1) by (auto simp: run_snoc split: option.splits)
  then show ?thesis
    using step_exit_status [of v env e c' c] snoc by simp
qed

text \<open>
  C2, as amended. Taking the exits of the program itself and the two signals it registers
  for (other signals and failures of the Go runtime are outside the model): in every
  state a run reaches, the exit status is absent (the process is alive), 0, 1, or 128 plus
  the number of a signal.
  \<^item> It is 1 exactly when \<^verbatim>\<open>ListenAndServe\<close> has returned an error other than
    \<^verbatim>\<open>ErrServerClosed\<close>, as the last event of the run: the listener failed to bind, or
    the call failed later, in the accept loop; the goroutine exits with status 1 on either
    and does not tell them apart.
  \<^item> It is 128 plus the number of \<open>s\<close> exactly when the signal \<open>s\<close> arrived before
    \<^verbatim>\<open>signal.Notify\<close> was in effect, as the last event of the run: the signal ends the
    process, with no error of \<^verbatim>\<open>ListenAndServe\<close>.
  \<^item> It is 0 exactly when \<^verbatim>\<open>main\<close> has returned, which it does after \<^verbatim>\<open>Shutdown\<close>
    returns, whether with nil (clean stop) or with the error of the context (forced
    stop).
  So the status is non-zero if and only if one of the first two has happened.
\<close>

theorem exit_status_of_run:
  assumes "run v env evs init = Some c"
  shows "(exit_status c = None \<or> exit_status c = Some 0 \<or> exit_status c = Some 1
            \<or> (\<exists>s. exit_status c = Some (128 + signum s)))
       \<and> (exit_status c = Some 1 \<longleftrightarrow> (\<exists>e. serving c = BindFailed e \<or> serving c = ServeFailed e))
       \<and> (exit_status c = Some 1 \<longleftrightarrow>
            (\<exists>es err. evs = es @ [ListenReturned err] \<and> err \<noteq> ErrServerClosed))
       \<and> (\<forall>s. exit_status c = Some (128 + signum s) \<longleftrightarrow> (\<exists>es. evs = es @ [EarlySignal s]))
       \<and> (exit_status c = Some 0 \<longleftrightarrow> mainpc c = MDone)
       \<and> (exit_status c = Some 0 \<longleftrightarrow> (\<exists>es err. evs = es @ [ShutdownReturned err]))
       \<and> ((\<exists>n. exit_status c = Some n \<and> n \<noteq> 0) \<longleftrightarrow>
            (\<exists>es err. evs = es @ [ListenReturned err] \<and> err \<noteq> ErrServerClosed)
            \<or> (\<exists>es s. evs = es @ [EarlySignal s]))
       \<and> (\<forall>err c'. step v env (ListenReturned err) c = Some c' \<and> err \<noteq> ErrServerClosed
             \<longrightarrow> exit_status c' = Some 1
                 \<and> (serving c = Binding \<longrightarrow> serving c' = BindFailed (Error_text err)))
       \<and> (\<forall>err c'. step v env (ShutdownReturned err) c = Some c'
             \<longrightarrow> exit_status c' = Some 0 \<and> shutdown_err c' = err)"
proof -
  have w: "wf c"
    using assms by (rule reachable_wf)
  have f: "failed (serving c) \<longleftrightarrow> (\<exists>e. serving c = BindFailed e \<or> serving c = ServeFailed e)"
    by (cases "serving c") simp_all
  have l: "exit_status c =
     (if evs = [] then None
      else case last evs of
             ListenReturned err \<Rightarrow> (if err = ErrServerClosed then None else Some 1)
           | ShutdownReturned e \<Rightarrow> Some 0
           | EarlySignal s \<Rightarrow> Some (128 + signum s)
           | _ \<Rightarrow> None)"
    using assms by (rule run_exit_status) (simp add: init_def)
  have 1: "exit_status c = None \<or> exit_status c = Some 0 \<or> exit_status c = Some 1
            \<or> (\<exists>s. exit_status c = Some (128 + signum s))"
    using l by (auto split: event.splits)
  have 2: "exit_status c = Some 1 \<longleftrightarrow> (\<exists>e. serving c = BindFailed e \<or> serving c = ServeFailed e)"
  proof (cases "failed (serving c)")
    case True
    then show ?thesis using w f by (simp add: wf_def)
  next
    case False
    then have "exit_status c \<noteq> Some 1"
      using w by (cases "mainpc c = MInit") (auto simp: wf_def split: if_splits)
    then show ?thesis using False f by simp
  qed
  have 3: "exit_status c = Some 1 \<longleftrightarrow>
            (\<exists>es err. evs = es @ [ListenReturned err] \<and> err \<noteq> ErrServerClosed)"
  proof (cases evs rule: rev_cases)
    case Nil
    then show ?thesis using l by simp
  next
    case (snoc es e)
    then show ?thesis using l by (cases e) auto
  qed
  have 4: "exit_status c = Some (128 + signum s) \<longleftrightarrow> (\<exists>es. evs = es @ [EarlySignal s])" for s
  proof (cases evs rule: rev_cases)
    case Nil
    then show ?thesis using l by simp
  next
    case (snoc es e)
    then show ?thesis using l by (cases e) auto
  qed
  have 6: "exit_status c = Some 0 \<longleftrightarrow> mainpc c = MDone"
    using w by (auto simp: wf_def split: if_splits)
  have 7: "exit_status c = Some 0 \<longleftrightarrow> (\<exists>es err. evs = es @ [ShutdownReturned err])"
  proof (cases evs rule: rev_cases)
    case Nil
    then show ?thesis using l by simp
  next
    case (snoc es e)
    then show ?thesis using l by (cases e) auto
  qed
  have 8: "(\<exists>n. exit_status c = Some n \<and> n \<noteq> 0) \<longleftrightarrow>
            (\<exists>es err. evs = es @ [ListenReturned err] \<and> err \<noteq> ErrServerClosed)
            \<or> (\<exists>es s. evs = es @ [EarlySignal s])"
  proof
    assume "\<exists>n. exit_status c = Some n \<and> n \<noteq> 0"
    then have "exit_status c = Some 1 \<or> (\<exists>s. exit_status c = Some (128 + signum s))"
      using 1 by auto
    then show "(\<exists>es err. evs = es @ [ListenReturned err] \<and> err \<noteq> ErrServerClosed)
            \<or> (\<exists>es s. evs = es @ [EarlySignal s])"
      using 3 4 by blast
  next
    assume "(\<exists>es err. evs = es @ [ListenReturned err] \<and> err \<noteq> ErrServerClosed)
            \<or> (\<exists>es s. evs = es @ [EarlySignal s])"
    then have "exit_status c = Some 1 \<or> (\<exists>s. exit_status c = Some (128 + signum s))"
      using 3 4 by blast
    then show "\<exists>n. exit_status c = Some n \<and> n \<noteq> 0"
      by auto
  qed
  have 9: "exit_status c' = Some 1
           \<and> (serving c = Binding \<longrightarrow> serving c' = BindFailed (Error_text err))"
    if "step v env (ListenReturned err) c = Some c' \<and> err \<noteq> ErrServerClosed" for err c'
    using step_exit_status [of v env "ListenReturned err" c c']
      step_serving [of v env "ListenReturned err" c c'] that
    by simp
  have 10: "exit_status c' = Some 0 \<and> shutdown_err c' = err"
    if "step v env (ShutdownReturned err) c = Some c'" for err c'
    using that by (auto simp: step.simps exit_process_def split: if_splits)
  have all4: "\<forall>s. exit_status c = Some (128 + signum s) \<longleftrightarrow> (\<exists>es. evs = es @ [EarlySignal s])"
    using 4 by simp
  have all9: "\<forall>err c'. step v env (ListenReturned err) c = Some c' \<and> err \<noteq> ErrServerClosed
             \<longrightarrow> exit_status c' = Some 1
                 \<and> (serving c = Binding \<longrightarrow> serving c' = BindFailed (Error_text err))"
    using 9 by simp
  have all10: "\<forall>err c'. step v env (ShutdownReturned err) c = Some c'
             \<longrightarrow> exit_status c' = Some 0 \<and> shutdown_err c' = err"
    using 10 by simp
  show ?thesis
    by (intro conjI) (rule 1 2 3 all4 6 7 8 all9 all10)+
qed

theorem exit_status_of_run_witness:
  "map_option (\<lambda>c. (exit_status c, serving c))
     (run Basic env0 [Spawn, ListenReturned (OtherError ''bind: address already in use'')] init)
     = Some (Some 1, BindFailed ''bind: address already in use'')
   \<and> map_option (\<lambda>c. (exit_status c, shutdown_err c))
     (run Basic env0 [Spawn, Bound, Signal SIGTERM, ShutdownReturned None] init)
     = Some (Some 0, None)
   \<and> map_option (\<lambda>c. (exit_status c, shutdown_err c))
     (run Structured env0 [Spawn, Bound, Accept get_root, Signal SIGINT, Tick, Handle 0 7 2,
        ShutdownReturned None] init)
     = Some (Some 0, None)
   \<and> map_option (\<lambda>c. (exit_status c, handle_state c, out (glob c)))
     (run Structured env0 [EarlySignal SIGTERM] init) = Some (Some 143, Idle, [])
   \<and> run Structured env0 [Spawn, EarlySignal SIGTERM] init = None
   \<and> run Structured env0 [Signal SIGTERM] init = None"
  using exit_status_of_run [of Basic env0
      "[Spawn, ListenReturned (OtherError ''bind: address already in use'')]"
      "the (run Basic env0
         [Spawn, ListenReturned (OtherError ''bind: address already in use'')] init)",
      THEN conjunct1]
  by (simp add: run_defs)

text \<open>
  The claim as stated (non-zero only if the listener fails to bind) fails: with the
  listener bound and the accept loop running, an error returned by \<^verbatim>\<open>ListenAndServe\<close>
  ends the process with status 1 all the same.
\<close>

theorem exit_nonzero_after_bind:
  "map_option (\<lambda>c. (exit_status c, serving c))
     (run Basic env0 [Spawn, Bound] init) = Some (None, Accepting)
   \<and> map_option (\<lambda>c. (exit_status c, serving c))
     (run Basic env0 [Spawn, Bound, ListenReturned (OtherError ''accept: no buffer space'')] init)
     = Some (Some 1, ServeFailed ''accept: no buffer space'')"
  by (simp add: run_defs)

section \<open>Lifecycle\<close>

text \<open>
  C7, as amended. In every state a run reaches, an event leaves the state of the handle
  as it is or moves it along one of \<open>Idle \<rightarrow> Starting \<rightarrow> Running \<rightarrow> Stopping \<rightarrow> Stopped\<close>,
  \<open>Starting \<rightarrow> Failed\<close>, \<open>Running \<rightarrow> Failed\<close>, or \<open>Starting \<rightarrow> Stopping\<close> (a signal that
  arrives before the listener is bound: \<^verbatim>\<open>main\<close> calls \<^verbatim>\<open>Shutdown\<close> without waiting for
  the start to resolve). The state never moves backward, \<open>Failed\<close> is entered from
  \<open>Starting\<close> or \<open>Running\<close> only, and in \<open>Stopped\<close> and \<open>Failed\<close> no event can happen.
\<close>

theorem lifecycle_forward:
  assumes "run v env evs init = Some c"
  shows "(\<forall>ev c'. step v env ev c = Some c' \<longrightarrow>
            handle_state c' = handle_state c
            \<or> (handle_state c, handle_state c') \<in>
                 {(Idle, Starting), (Starting, Running), (Running, Stopping),
                  (Stopping, Stopped), (Starting, Failed), (Running, Failed),
                  (Starting, Stopping)})
       \<and> (handle_state c = Stopped \<or> handle_state c = Failed
            \<longrightarrow> (\<forall>ev. step v env ev c = None))"
proof (intro conjI allI impI)
  fix ev c'
  assume st: "step v env ev c = Some c'"
  have w: "wf c"
    using assms by (rule reachable_wf)
  have w': "wf c'"
    using st w by (rule step_wf)
  note a = step_alive [OF st]
  note m = step_mainpc [OF st]
  note s = step_serving [OF st]
  note g = step_guard [OF st]
  show "handle_state c' = handle_state c
        \<or> (handle_state c, handle_state c') \<in>
             {(Idle, Starting), (Starting, Running), (Running, Stopping),
              (Stopping, Stopped), (Starting, Failed), (Running, Failed),
              (Starting, Stopping)}"
    using a m s g w w' unfolding handle_state_eq wf_def
    by (cases ev) (auto split: if_splits mainpc.splits)
next
  fix ev
  assume t: "handle_state c = Stopped \<or> handle_state c = Failed"
  have w: "wf c"
    using assms by (rule reachable_wf)
  have "exit_status c \<noteq> None"
    using t w unfolding handle_state_eq wf_def by (auto split: if_splits mainpc.splits)
  then show "step v env ev c = None"
    using step_alive [of v env ev c] by (cases "step v env ev c") auto
qed

theorem lifecycle_forward_witness:
  "map_option handle_state (run Basic env0 [] init) = Some Idle
   \<and> map_option handle_state (run Basic env0 [Spawn] init) = Some Starting
   \<and> map_option handle_state (run Basic env0 [Spawn, Bound] init) = Some Running
   \<and> map_option handle_state (run Basic env0 [Spawn, Bound, Signal SIGTERM] init) = Some Stopping
   \<and> map_option handle_state
       (run Basic env0 [Spawn, Bound, Signal SIGTERM, ShutdownReturned None] init) = Some Stopped
   \<and> run Basic env0 [Spawn, Bound, Signal SIGTERM, ShutdownReturned None, Tick] init = None
   \<and> map_option handle_state
       (run Basic env0 [Spawn, ListenReturned (OtherError ''bind: permission denied'')] init)
       = Some Failed"
  using lifecycle_forward [of Basic env0 "[Spawn, Bound]" "the (run Basic env0 [Spawn, Bound] init)",
      THEN conjunct2]
  by (simp add: run_defs)

text \<open>
  The claim as stated (steps follow the chain, one state at a time) fails for a signal
  received while the goroutine has not bound the listener yet: the handle goes from
  \<open>Starting\<close> to \<open>Stopping\<close> and is never \<open>Running\<close>.
\<close>

theorem lifecycle_skips_running:
  "map_option handle_state (run Basic env0 [Spawn] init) = Some Starting
   \<and> map_option handle_state (run Basic env0 [Spawn, Signal SIGINT] init) = Some Stopping
   \<and> (Starting, Stopping) \<notin> {(Idle, Starting), (Starting, Running), (Running, Stopping),
        (Stopping, Stopped), (Starting, Failed), (Running, Failed)}"
  by (simp add: run_defs)

section \<open>Signals\<close>

text \<open>
  A signal delivered while \<^verbatim>\<open>Shutdown\<close> is running changes nothing: the shutdown sequence
  is not entered a second time.
\<close>

lemma later_signal_ignored:
  "mainpc c = MShutdown \<Longrightarrow> exit_status c = None \<Longrightarrow> step v env (Signal s) c = Some c"
  by (simp add: step.simps)

lemma step_forget: "step v env (forget e) c = step v env e c"
  by (cases e) (simp_all add: step.simps)

lemma run_forget: "run v env (map forget evs) c = run v env evs c"
  by (induction evs arbitrary: c) (simp_all add: step_forget split: option.splits)

text \<open>
  C6, as amended. The wait \<^verbatim>\<open><-sig\<close> ends on an interrupt or a terminate signal and
  on nothing else (no event but a signal moves \<^verbatim>\<open>main\<close> out of the wait: there is no
  programmatic trigger). The value received is dropped: a step is the same for either
  signal, and a whole run, its output and exit status included, is the same when every
  signal in it is replaced by \<^verbatim>\<open>SIGINT\<close>. No reason tag is returned.
\<close>

theorem signal_not_kept:
  "step v env (Signal s) c = step v env (Signal s') c
   \<and> run v env (map forget evs) c = run v env evs c
   \<and> (\<forall>ev c'. mainpc c = MWait \<and> step v env ev c = Some c' \<and> mainpc c' \<noteq> MWait
         \<longrightarrow> (\<exists>sg. ev = Signal sg))"
proof (intro conjI allI impI)
  show "step v env (Signal s) c = step v env (Signal s') c"
    by (simp add: step.simps)
  show "run v env (map forget evs) c = run v env evs c"
    by (rule run_forget)
next
  fix ev c'
  assume "mainpc c = MWait \<and> step v env ev c = Some c' \<and> mainpc c' \<noteq> MWait"
  then show "\<exists>sg. ev = Signal sg"
    using step_mainpc [of v env ev c c'] step_guard [of v env ev c c'] by (cases ev) auto
qed

theorem signal_not_kept_witness:
  "step Basic env0 (Signal SIGINT) running = step Basic env0 (Signal SIGTERM) running
   \<and> map_option mainpc (step Basic env0 (Signal SIGTERM) running) = Some MShutdown
   \<and> out (glob (the (step Basic env0 (Signal SIGTERM) running)))
       = [Println ''shutdown signal received'']"
  using signal_not_kept [of Basic env0 SIGINT running SIGTERM "[]"]
  by (simp add: run_defs running_def)

text \<open>
  The claim as stated (the caller can tell which trigger occurred) fails: nothing
  computed from a complete run recovers the signal that stopped it.
\<close>

theorem signal_reason_lost:
  "run Basic env0 [Spawn, Bound, Signal SIGINT, ShutdownReturned None] init \<noteq> None
   \<and> \<not> (\<exists>reason :: config option \<Rightarrow> signal.
        \<forall>s. reason (run Basic env0 [Spawn, Bound, Signal s, ShutdownReturned None] init) = s)"
proof
  show "run Basic env0 [Spawn, Bound, Signal SIGINT, ShutdownReturned None] init \<noteq> None"
    by (simp add: run_defs)
  show "\<not> (\<exists>reason :: config option \<Rightarrow> signal.
        \<forall>s. reason (run Basic env0 [Spawn, Bound, Signal s, ShutdownReturned None] init) = s)"
  proof
    assume "\<exists>reason :: config option \<Rightarrow> signal.
        \<forall>s. reason (run Basic env0 [Spawn, Bound, Signal s, ShutdownReturned None] init) = s"
    then obtain reason :: "config option \<Rightarrow> signal" where
      r: "\<And>s. reason (run Basic env0 [Spawn, Bound, Signal s, ShutdownReturned None] init) = s"
      by blast
    have "run Basic env0 [Spawn, Bound, Signal SIGINT, ShutdownReturned None] init
        = run Basic env0 [Spawn, Bound, Signal SIGTERM, ShutdownReturned None] init"
      by (simp add: step.simps)
    then have "SIGINT = SIGTERM"
      using r [of SIGINT] r [of SIGTERM] by simp
    then show False by simp
  qed
qed

section \<open>Health endpoint\<close>

lemma mux_health: "path r = ''/health'' \<Longrightarrow> fst (mux v env r g) = [WriteHeader 200, Write ''ok'']"
  by (cases v) (simp_all add: mux_def)

lemma mux_Structured_calls:
  "fst (mux Structured env r g) =
     (if path r = ''/health'' then [WriteHeader 200, Write ''ok'']
      else [Write (''hello from containerized go service'' @ newline)])"
  by (simp add: mux_def)

text \<open>The writer that the middleware hands to the wrapped handler, and what comes back.\<close>

lemma withMiddleware_fst:
  assumes "\<And>g'. fst (next r g') = calls"
  shows "fst (withMiddleware next lg rnd took r w g) =
     map_option ResponseWriter
       (rec_calls (Method r) calls
          \<lparr>ResponseWriter = w\<lparr>hdr := (hdr w)(''X-Request-Id'' \<mapsto>
              (if Header_Get (header r) ''X-Request-Id'' = [] then fst (requestID rnd g)
               else Header_Get (header r) ''X-Request-Id''))\<rparr>,
           status = 200\<rparr>)"
  by (cases "Header_Get (header r) ''X-Request-Id'' = []")
    (simp_all add: withMiddleware_def Let_def split_beta assms split: option.splits)

lemma serve_Structured_fst:
  "fst (serve Structured env rnd took r g) =
     (let rid = (if Header_Get (header r) ''X-Request-Id'' = [] then fst (requestID rnd g)
                 else Header_Get (header r) ''X-Request-Id'');
          h = [''X-Request-Id'' \<mapsto> rid]
      in Some \<lparr>hdr = h, sent = Some (200, h),
               body = (if Method r = ''HEAD'' then []
                       else if path r = ''/health'' then ''ok''
                       else ''hello from containerized go service'' @ newline)\<rparr>)"
proof -
  have c: "\<And>g'. fst (mux Structured env r g') = fst (mux Structured env r g)"
    by (simp add: mux_Structured_calls)
  show ?thesis
    unfolding serve_def variant.case split_beta Let_def fst_conv
      withMiddleware_fst [of "mux Structured env" r, OF c]
    by (simp add: mux_Structured_calls finishRequest_def new_response_def rec_WriteHeader_def
          conn_WriteHeader_def conn_Write_def bodyAllowedForStatus_def)
qed

lemma serve_health:
  assumes "path r = ''/health''"
  shows "\<exists>h. fst (serve v env rnd took r g)
            = Some \<lparr>hdr = h, sent = Some (200, h),
                     body = (if Method r = ''HEAD'' then [] else ''ok'')\<rparr>"
proof (cases v)
  case Structured
  show ?thesis
    unfolding Structured serve_Structured_fst using assms by (simp add: Let_def)
qed (simp_all add: serve_def split_beta mux_health [OF assms] finishRequest_def
       new_response_def conn_WriteHeader_def conn_Write_def bodyAllowedForStatus_def)

text \<open>
  C3, as amended. Whenever the handler runs for a \<^verbatim>\<open>GET\<close> request to \<^verbatim>\<open>/health\<close>, in any
  variant and in any state of the handle in which a request can still be handled
  (\<open>Running\<close> and \<open>Stopping\<close> alike), the response has status 200 and body "ok", and
  the state of the handle is not consulted or changed. The handler has no
  error/unavailable answer. (The status is 200 for every method; only a \<^verbatim>\<open>HEAD\<close>
  request gets no body.)
\<close>

theorem health_always_ok:
  assumes "step v env (Handle i rnd took) c = Some c'"
    and "path (inflight c ! i) = ''/health''"
  shows "\<exists>h. answered c' = answered c
                 @ [(inflight c ! i,
                     \<lparr>hdr = h, sent = Some (200, h),
                      body = (if Method (inflight c ! i) = ''HEAD'' then [] else ''ok'')\<rparr>)]
           \<and> (Method (inflight c ! i) = ''GET'' \<longrightarrow> body (snd (last (answered c'))) = ''ok'')
           \<and> aborted c' = aborted c \<and> handle_state c' = handle_state c"
proof -
  obtain h where h: "fst (serve v env rnd took (inflight c ! i) (glob c))
            = Some \<lparr>hdr = h, sent = Some (200, h),
                     body = (if Method (inflight c ! i) = ''HEAD'' then [] else ''ok'')\<rparr>"
    using serve_health [OF assms(2)] by blast
  have a: "answered c' = answered c
          @ [(inflight c ! i,
              \<lparr>hdr = h, sent = Some (200, h),
               body = (if Method (inflight c ! i) = ''HEAD'' then [] else ''ok'')\<rparr>)]
        \<and> aborted c' = aborted c"
    using assms(1) h
    by (auto simp: step.simps Let_def split_beta split: if_splits option.splits)
  then have "Method (inflight c ! i) = ''GET'' \<longrightarrow> body (snd (last (answered c'))) = ''ok''"
    by simp
  moreover have "handle_state c' = handle_state c"
    using step_mainpc [OF assms(1)] step_serving [OF assms(1)] by (simp add: handle_state_eq)
  ultimately show ?thesis
    using a by blast
qed

theorem health_always_ok_witness:
  "map_option answered (run Periodic env0 [Spawn, Bound, Accept get_health, Handle 0 0 0] init)
     = Some [(get_health, \<lparr>hdr = Map.empty, sent = Some (200, Map.empty), body = ''ok''\<rparr>)]
   \<and> map_option (\<lambda>c. map (\<lambda>(r, w). (map_option fst (sent w), body w)) (answered c))
       (run Structured env0 [Spawn, Bound, Accept get_health, Signal SIGINT, Handle 0 0 0] init)
     = Some [(Some 200, ''ok'')]
   \<and> map_option (\<lambda>c. map (\<lambda>(r, w). (Method r, map_option fst (sent w), body w)) (answered c))
       (run Basic env0 [Spawn, Bound, Accept head_health, Handle 0 0 0] init)
     = Some [(''HEAD'', Some 200, [])]"
  using health_always_ok [of Periodic env0 0 0 0
      "the (run Periodic env0 [Spawn, Bound, Accept get_health] init)"
      "the (run Periodic env0 [Spawn, Bound, Accept get_health, Handle 0 0 0] init)"]
  by (simp add: run_defs)

text \<open>
  The claim as stated (an error status once the handle is \<open>Stopping\<close>) fails: a request
  to \<^verbatim>\<open>/health\<close> accepted before the signal and handled while \<^verbatim>\<open>Shutdown\<close> is draining
  is answered 200 "ok".
\<close>

theorem health_ok_while_stopping:
  "map_option handle_state
     (run Basic env0 [Spawn, Bound, Accept get_health, Signal SIGTERM] init) = Some Stopping
   \<and> map_option (\<lambda>c. map (\<lambda>(r, w). (path r, map_option fst (sent w), body w)) (answered c))
       (run Basic env0 [Spawn, Bound, Accept get_health, Signal SIGTERM, Handle 0 0 0] init)
     = Some [(''/health'', Some 200, ''ok'')]"
  by (simp add: run_defs)

section \<open>No new connection once stop has begun\<close>

lemma step_inflight:
  assumes "step v env ev c = Some c'"
  shows "(\<exists>r. ev = Accept r) \<or> set (inflight c') \<subseteq> set (inflight c)
           \<and> length (inflight c') \<le> length (inflight c)"
proof (cases ev)
  case (Handle i rnd took)
  have "set (take i (inflight c) @ drop (Suc i) (inflight c)) \<subseteq> set (inflight c)"
    using set_take_subset [of i "inflight c"] set_drop_subset [of "Suc i" "inflight c"] by auto
  then show ?thesis
    using assms Handle
    by (auto simp: step.simps Let_def split_beta split: if_splits option.splits)
qed (use assms in \<open>auto simp: step.simps exit_process_def split: if_splits option.splits\<close>)

lemma step_stopping:
  assumes "step v env ev c = Some c'" and "mainpc c = MShutdown \<or> mainpc c = MDone"
  shows "(mainpc c' = MShutdown \<or> mainpc c' = MDone) \<and> (\<forall>r. ev \<noteq> Accept r)
       \<and> set (inflight c') \<subseteq> set (inflight c) \<and> length (inflight c') \<le> length (inflight c)"
  using step_mainpc [OF assms(1)] step_guard [OF assms(1)] step_inflight [OF assms(1)] assms(2)
  by (cases ev) auto

lemma run_stopping:
  assumes "run v env evs c = Some c'" and "mainpc c = MShutdown \<or> mainpc c = MDone"
  shows "(mainpc c' = MShutdown \<or> mainpc c' = MDone) \<and> (\<forall>r. Accept r \<notin> set evs)
       \<and> set (inflight c') \<subseteq> set (inflight c) \<and> length (inflight c') \<le> length (inflight c)"
  using assms
proof (induction evs arbitrary: c)
  case Nil
  then show ?case by simp
next
  case (Cons e es)
  then obtain c1 where c1: "step v env e c = Some c1" and r: "run v env es c1 = Some c'"
    by (auto split: option.splits)
  note s = step_stopping [OF c1 Cons.prems(2)]
  note i = Cons.IH [OF r conjunct1 [OF s]]
  show ?case
    using s i by auto
qed

lemma run_step_wf:
  assumes "run v env evs init = Some c0" and "step v env ev c0 = Some c"
    and "run v env evs' c = Some c'"
  shows "wf c" and "wf c'"
proof -
  show "wf c"
    using assms(1,2) reachable_wf step_wf by blast
  then show "wf c'"
    using assms(3) run_wf by blast
qed

text \<open>
  C4. Once a signal has made \<^verbatim>\<open>main\<close> call \<^verbatim>\<open>Shutdown\<close>, in every state reached
  afterwards no connection can be accepted, no \<open>Accept\<close> occurs in the continuation, and
  the requests in flight only become fewer; while the process is alive each of them can
  still be handled (draining goes on).
\<close>

theorem no_accept_after_stop:
  assumes "run v env evs init = Some c0" and "step v env (Signal s) c0 = Some c"
    and "run v env evs' c = Some c'"
  shows "(\<forall>r. step v env (Accept r) c' = None)
       \<and> (\<forall>r. Accept r \<notin> set evs')
       \<and> set (inflight c') \<subseteq> set (inflight c)
       \<and> length (inflight c') \<le> length (inflight c)
       \<and> (exit_status c' = None \<longrightarrow>
            (\<forall>i < length (inflight c'). \<forall>rnd. step v env (Handle i rnd 0) c' \<noteq> None))"
proof -
  have m: "mainpc c = MShutdown \<or> mainpc c = MDone"
    using step_mainpc [OF assms(2)] by simp
  note r = run_stopping [OF assms(3) m]
  have w: "wf c'"
    using assms by (rule run_step_wf(2))
  have a: "step v env (Accept r) c' = None" for r
    using r by (auto simp: step.simps)
  have h: "step v env (Handle i rnd 0) c' \<noteq> None"
    if "exit_status c' = None" and "i < length (inflight c')" for i rnd
    using that w
    by (auto simp: step.simps wf_def Let_def split_beta split: option.splits)
  show ?thesis
    using r a h by blast
qed

theorem no_accept_after_stop_witness:
  "map_option handle_state
     (run Basic env0 [Spawn, Bound, Accept get_root, Signal SIGTERM, Tick] init) = Some Stopping
   \<and> run Basic env0 [Spawn, Bound, Accept get_root, Signal SIGTERM, Tick, Accept get_health] init
       = None
   \<and> map_option (\<lambda>c. (inflight c, length (answered c)))
       (run Basic env0 [Spawn, Bound, Accept get_root, Signal SIGTERM, Tick, Handle 0 0 0] init)
       = Some ([], 1)"
  using no_accept_after_stop [of Basic env0 "[Spawn, Bound, Accept get_root]"
      "the (run Basic env0 [Spawn, Bound, Accept get_root] init)" SIGTERM
      "the (run Basic env0 [Spawn, Bound, Accept get_root, Signal SIGTERM] init)" "[Tick]"
      "the (run Basic env0 [Spawn, Bound, Accept get_root, Signal SIGTERM, Tick] init)",
      THEN conjunct1]
  by (simp add: run_defs)

section \<open>Graceful stop\<close>









lemma run_run:
  "run v env xs c = Some c1 \<Longrightarrow> run v env ys c1 = Some c2 \<Longrightarrow> run v env (xs @ ys) c = Some c2"
  by (simp add: run_append)










section \<open>The request-id middleware of \<open>Structured\<close>\<close>

lemma rec_calls_status:
  assumes "rec_calls m calls r = Some r'" and "\<forall>code. WriteHeader code \<notin> set calls"
  shows "status r' = status r"
  using assms
proof (induction calls arbitrary: r)
  case Nil
  then show ?case by simp
next
  case (Cons c cs)
  then obtain r1 where r1: "rec_call m c r = Some r1" and rest: "rec_calls m cs r1 = Some r'"
    by (auto split: option.splits)
  have "status r1 = status r"
    using r1 Cons.prems(2) by (cases c) (auto split: option.splits)
  moreover have "status r' = status r1"
    using Cons.IH [OF rest] Cons.prems(2) by simp
  ultimately show ?case by simp
qed

lemma withMiddleware_completed:
  assumes "withMiddleware next lg rnd took r w g = (Some w', g')"
  obtains g2 g4 rid rec' where
    "rec_calls (Method r) (fst (next r g2))
       \<lparr>ResponseWriter = w\<lparr>hdr := (hdr w)(''X-Request-Id'' \<mapsto> rid)\<rparr>, status = 200\<rparr> = Some rec'"
    and "g' = emit (Logger_Info lg (now g4) ''request completed''
                  [''request_id'' \<mapsto> JStr rid, ''method'' \<mapsto> JStr (Method r),
                   ''path'' \<mapsto> JStr (path r), ''status'' \<mapsto> JInt (status rec'),
                   ''duration'' \<mapsto> JInt (int (now g4 - now g))]) g4"
proof -
  let ?p = "if Header_Get (header r) ''X-Request-Id'' = [] then requestID rnd g
            else (Header_Get (header r) ''X-Request-Id'', g)"
  let ?g2 = "emit (Logger_Debug lg (now (snd ?p)) ''request started''
                  [''request_id'' \<mapsto> JStr (fst ?p), ''method'' \<mapsto> JStr (Method r),
                   ''path'' \<mapsto> JStr (path r)]) (snd ?p)"
  let ?g4 = "(snd (next r ?g2))\<lparr>now := now (snd (next r ?g2)) + took\<rparr>"
  let ?rec = "\<lparr>ResponseWriter = w\<lparr>hdr := (hdr w)(''X-Request-Id'' \<mapsto> fst ?p)\<rparr>, status = 200\<rparr>"
  have u: "withMiddleware next lg rnd took r w g =
     (case rec_calls (Method r) (fst (next r ?g2)) ?rec of
        None \<Rightarrow> (None, ?g4)
      | Some rec' \<Rightarrow>
          (Some (ResponseWriter rec'),
           emit (Logger_Info lg (now ?g4) ''request completed''
                  [''request_id'' \<mapsto> JStr (fst ?p), ''method'' \<mapsto> JStr (Method r),
                   ''path'' \<mapsto> JStr (path r), ''status'' \<mapsto> JInt (status rec'),
                   ''duration'' \<mapsto> JInt (int (now ?g4 - now g))]) ?g4))"
    unfolding withMiddleware_def Let_def split_beta by (rule refl)
  obtain rec' where 1: "rec_calls (Method r) (fst (next r ?g2)) ?rec = Some rec'"
    and 2: "g' = emit (Logger_Info lg (now ?g4) ''request completed''
                  [''request_id'' \<mapsto> JStr (fst ?p), ''method'' \<mapsto> JStr (Method r),
                   ''path'' \<mapsto> JStr (path r), ''status'' \<mapsto> JInt (status rec'),
                   ''duration'' \<mapsto> JInt (int (now ?g4 - now g))]) ?g4"
    using assms unfolding u by (cases "rec_calls (Method r) (fst (next r ?g2)) ?rec") auto
  show thesis
    using 1 2 by (rule that)
qed

lemma digit_inj: "a < 36 \<Longrightarrow> b < 36 \<Longrightarrow> digit a = digit b \<Longrightarrow> a = b"
  by (auto simp: digit_def split: if_splits)

lemma digit_not_dash: "d < 36 \<Longrightarrow> digit d \<noteq> CHR ''-''"
  by (auto simp: digit_def char_of_eq_iff take_bit_eq_mod split: if_splits)

lemma FormatUint_nonempty: "FormatUint i b \<noteq> []"
  by (subst FormatUint.simps) simp

lemma FormatUint_digits:
  "2 \<le> b \<Longrightarrow> b \<le> 36 \<Longrightarrow> c \<in> set (FormatUint i b) \<Longrightarrow> \<exists>d<b. c = digit d"
proof (induction i b rule: FormatUint.induct)
  case (1 i base)
  show ?case
  proof (cases "i < base")
    case True
    then show ?thesis
      using "1.prems" by (subst (asm) FormatUint.simps) auto
  next
    case False
    then have "c \<in> set (FormatUint (i div base) base) \<or> c = digit (i mod base)"
      using "1.prems" by (subst (asm) FormatUint.simps) auto
    then show ?thesis
      using "1.IH" "1.prems"(1,2) False
      by (metis linorder_not_less mod_less_divisor not_numeral_le_zero order_less_le_trans
          zero_less_numeral)
  qed
qed

lemma FormatUint_inj:
  "2 \<le> b \<Longrightarrow> b \<le> 36 \<Longrightarrow> FormatUint i b = FormatUint j b \<Longrightarrow> i = j"
proof (induction i b arbitrary: j rule: FormatUint.induct)
  case (1 i base)
  have fi: "FormatUint i base =
      (if i < base then [digit i] else FormatUint (i div base) base @ [digit (i mod base)])"
    using "1.prems"(1) by (subst FormatUint.simps) auto
  have fj: "FormatUint j base =
      (if j < base then [digit j] else FormatUint (j div base) base @ [digit (j mod base)])"
    using "1.prems"(1) by (subst FormatUint.simps) auto
  have pos: "0 < base"
    using "1.prems"(1) by simp
  show ?case
  proof (cases "i < base")
    case True
    show ?thesis
    proof (cases "j < base")
      case j: True
      then show ?thesis
        using True fi fj "1.prems" digit_inj [of i j] by simp
    next
      case j: False
      then show ?thesis
        using True fi fj "1.prems"(3) FormatUint_nonempty [of "j div base" base] by simp
    qed
  next
    case False
    show ?thesis
    proof (cases "j < base")
      case j: True
      then show ?thesis
        using False fi fj "1.prems"(3) FormatUint_nonempty [of "i div base" base] by simp
    next
      case j: False
      then have e: "FormatUint (i div base) base = FormatUint (j div base) base"
        and d: "digit (i mod base) = digit (j mod base)"
        using False fi fj "1.prems"(3) by simp_all
      have "i div base = j div base"
        using "1.IH" [OF _ "1.prems"(1,2) e] False "1.prems"(1) by simp
      moreover have "i mod base = j mod base"
        using d digit_inj [of "i mod base" "j mod base"] "1.prems"(2) pos
        by (meson mod_less_divisor order_less_le_trans)
      ultimately show ?thesis
        by (metis div_mult_mod_eq)
    qed
  qed
qed

lemma requestID_fresh:
  assumes "reqCounter g \<noteq> reqCounter g'"
  shows "fst (requestID rnd g) \<noteq> fst (requestID rnd' g')"
proof
  let ?a = "FormatUint (unat (reqCounter g + 1)) 10"
  let ?b = "FormatUint (unat (reqCounter g' + 1)) 10"
  assume "fst (requestID rnd g) = fst (requestID rnd' g')"
  then have e: "?a @ CHR ''-'' # FormatInt rnd 36 = ?b @ CHR ''-'' # FormatInt rnd' 36"
    by (simp add: requestID_def Let_def)
  have nd: "c \<noteq> CHR ''-''" if m: "c \<in> set (FormatUint i 10)" for i c
  proof -
    obtain d where "d < 10" and "c = digit d"
      using FormatUint_digits [of 10 c i] m by auto
    then show ?thesis
      using digit_not_dash [of d] by simp
  qed
  have "takeWhile (\<lambda>c. c \<noteq> CHR ''-'') (?a @ CHR ''-'' # FormatInt rnd 36) = ?a"
    using nd [of _ "unat (reqCounter g + 1)"] by (simp add: takeWhile_append2)
  moreover have "takeWhile (\<lambda>c. c \<noteq> CHR ''-'') (?b @ CHR ''-'' # FormatInt rnd' 36) = ?b"
    using nd [of _ "unat (reqCounter g' + 1)"] by (simp add: takeWhile_append2)
  ultimately have "?a = ?b"
    using e by simp
  then have "unat (reqCounter g + 1) = unat (reqCounter g' + 1)"
    using FormatUint_inj [of 10] by simp
  then have "reqCounter g + 1 = reqCounter g' + 1"
    by (simp only: word_unat_eq_iff)
  then have "reqCounter g = reqCounter g'"
    by simp
  then show False
    using assms by simp
qed

lemma FormatUint_small: "i < b \<Longrightarrow> FormatUint i b = [digit i]"
  by (subst FormatUint.simps) simp

lemma requestID_example: "fst (requestID 7 g0) = ''1-7''"
  by (simp add: requestID_def g0_def FormatInt_def FormatUint_small digit_def char_of_eq_iff
      take_bit_eq_mod)

lemma mux_Structured_snd: "snd (mux Structured env r g) = g"
  by (simp add: mux_def)

lemma mux_Structured_status:
  assumes "rec_calls (Method r) (fst (mux Structured env r g2)) \<lparr>ResponseWriter = w, status = 200\<rparr> = Some rec'"
  shows "status rec' = 200"
  using assms
  by (auto simp: mux_Structured_calls rec_WriteHeader_def split: if_splits option.splits)

lemma serve_Structured_snd:
  "snd (serve Structured env rnd took r g)
     = snd (withMiddleware (mux Structured env) (logger_of env) rnd took r new_response g)"
  by (simp add: serve_def split_beta)

lemma withMiddleware_reqCounter:
  assumes "\<And>g0. reqCounter (snd (next r g0)) = reqCounter g0"
  shows "reqCounter (snd (withMiddleware next lg rnd took r w g))
     = (if Header_Get (header r) ''X-Request-Id'' = [] then reqCounter g + 1 else reqCounter g)"
  by (cases "Header_Get (header r) ''X-Request-Id'' = []")
    (simp_all add: withMiddleware_def Let_def split_beta assms split: option.splits)

lemma requestID_nonempty: "fst (requestID rnd g) \<noteq> []"
  by (simp add: requestID_def Let_def)

text \<open>
  C8. In \<open>Structured\<close> every request gets a response, with status 200, whose
  \<^verbatim>\<open>X-Request-Id\<close> header is the request's own when that is not empty and otherwise the
  identifier \<^verbatim>\<open>requestID()\<close> makes for it: a non-empty string, made from the incremented
  \<^verbatim>\<open>reqCounter\<close>, that differs from every identifier made at another value of the
  counter. For any wrapped handler that never calls \<^verbatim>\<open>WriteHeader\<close> and returns, the
  function ends with the call that logs "request completed" with status 200 (printed
  when the logger's level admits \<^verbatim>\<open>INFO\<close>); so it does for every request to the mux of
  the program.
\<close>

theorem middleware_request_id:
  "(\<exists>h b. fst (serve Structured env rnd took r g)
             = Some \<lparr>hdr = h, sent = Some (200, h), body = b\<rparr>
         \<and> h ''X-Request-Id''
             = Some (if Header_Get (header r) ''X-Request-Id'' = [] then fst (requestID rnd g)
                     else Header_Get (header r) ''X-Request-Id''))
   \<and> reqCounter (snd (serve Structured env rnd took r g))
       = (if Header_Get (header r) ''X-Request-Id'' = [] then reqCounter g + 1
          else reqCounter g)
   \<and> fst (requestID rnd g) \<noteq> []
   \<and> (\<forall>rnd' g'. reqCounter g' \<noteq> reqCounter g
         \<longrightarrow> fst (requestID rnd' g') \<noteq> fst (requestID rnd g))
   \<and> (\<forall>next lg w w' g'.
         withMiddleware next lg rnd took r w g = (Some w', g')
         \<and> (\<forall>g2 code. WriteHeader code \<notin> set (fst (next r g2)))
         \<longrightarrow> (\<exists>g4 rid.
                g' = emit (Logger_Info lg (now g4) ''request completed''
                       [''request_id'' \<mapsto> JStr rid, ''method'' \<mapsto> JStr (Method r),
                        ''path'' \<mapsto> JStr (path r), ''status'' \<mapsto> JInt 200,
                        ''duration'' \<mapsto> JInt (int (now g4 - now g))]) g4))
   \<and> (\<exists>g4 rid.
         snd (serve Structured env rnd took r g)
           = emit (Logger_Info (logger_of env) (now g4) ''request completed''
                [''request_id'' \<mapsto> JStr rid, ''method'' \<mapsto> JStr (Method r),
                 ''path'' \<mapsto> JStr (path r), ''status'' \<mapsto> JInt 200,
                 ''duration'' \<mapsto> JInt (int (now g4 - now g))]) g4)"
proof (intro conjI allI impI)
  show "\<exists>h b. fst (serve Structured env rnd took r g)
             = Some \<lparr>hdr = h, sent = Some (200, h), body = b\<rparr>
         \<and> h ''X-Request-Id''
             = Some (if Header_Get (header r) ''X-Request-Id'' = [] then fst (requestID rnd g)
                     else Header_Get (header r) ''X-Request-Id'')"
    by (simp add: serve_Structured_fst Let_def)
next
  show "reqCounter (snd (serve Structured env rnd took r g))
       = (if Header_Get (header r) ''X-Request-Id'' = [] then reqCounter g + 1
          else reqCounter g)"
    unfolding serve_Structured_snd
    by (rule withMiddleware_reqCounter) (simp add: mux_Structured_snd)
next
  show "fst (requestID rnd g) \<noteq> []"
    by (rule requestID_nonempty)
next
  fix rnd' and g' :: globals
  assume "reqCounter g' \<noteq> reqCounter g"
  then show "fst (requestID rnd' g') \<noteq> fst (requestID rnd g)"
    by (rule requestID_fresh)
next
  fix "next" :: handler and lg w w' g'
  assume a: "withMiddleware next lg rnd took r w g = (Some w', g')
         \<and> (\<forall>g2 code. WriteHeader code \<notin> set (fst (next r g2)))"
  then obtain g2 g4 rid rec' where
    1: "rec_calls (Method r) (fst (next r g2))
       \<lparr>ResponseWriter = w\<lparr>hdr := (hdr w)(''X-Request-Id'' \<mapsto> rid)\<rparr>, status = 200\<rparr> = Some rec'"
    and 2: "g' = emit (Logger_Info lg (now g4) ''request completed''
                  [''request_id'' \<mapsto> JStr rid, ''method'' \<mapsto> JStr (Method r),
                   ''path'' \<mapsto> JStr (path r), ''status'' \<mapsto> JInt (status rec'),
                   ''duration'' \<mapsto> JInt (int (now g4 - now g))]) g4"
    by (auto elim: withMiddleware_completed)
  have "status rec' = 200"
    using rec_calls_status [OF 1] a by simp
  then show "\<exists>g4 rid.
                g' = emit (Logger_Info lg (now g4) ''request completed''
                       [''request_id'' \<mapsto> JStr rid, ''method'' \<mapsto> JStr (Method r),
                        ''path'' \<mapsto> JStr (path r), ''status'' \<mapsto> JInt 200,
                        ''duration'' \<mapsto> JInt (int (now g4 - now g))]) g4"
    using 2 by auto
next
  obtain w0 g' where wm:
    "withMiddleware (mux Structured env) (logger_of env) rnd took r new_response g = (w0, g')"
    by (cases "withMiddleware (mux Structured env) (logger_of env) rnd took r new_response g")
  have s: "serve Structured env rnd took r g = (map_option finishRequest w0, g')"
    using wm by (simp add: serve_def)
  have "fst (serve Structured env rnd took r g) \<noteq> None"
    by (simp add: serve_Structured_fst Let_def)
  then obtain w' where w0: "w0 = Some w'"
    using s by (cases w0) simp_all
  obtain g2 g4 rid rec' where
    1: "rec_calls (Method r) (fst (mux Structured env r g2))
       \<lparr>ResponseWriter = new_response\<lparr>hdr := (hdr new_response)(''X-Request-Id'' \<mapsto> rid)\<rparr>,
          status = 200\<rparr> = Some rec'"
    and 2: "g' = emit (Logger_Info (logger_of env) (now g4) ''request completed''
                  [''request_id'' \<mapsto> JStr rid, ''method'' \<mapsto> JStr (Method r),
                   ''path'' \<mapsto> JStr (path r), ''status'' \<mapsto> JInt (status rec'),
                   ''duration'' \<mapsto> JInt (int (now g4 - now g))]) g4"
    using wm unfolding w0 by (rule withMiddleware_completed)
  have "status rec' = 200"
    using 1 by (rule mux_Structured_status)
  then show "\<exists>g4 rid.
         snd (serve Structured env rnd took r g)
           = emit (Logger_Info (logger_of env) (now g4) ''request completed''
                [''request_id'' \<mapsto> JStr rid, ''method'' \<mapsto> JStr (Method r),
                 ''path'' \<mapsto> JStr (path r), ''status'' \<mapsto> JInt 200,
                 ''duration'' \<mapsto> JInt (int (now g4 - now g))]) g4"
    using 2 s by auto
qed

theorem middleware_request_id_witness:
  "map_option (\<lambda>w. (map_option fst (sent w), hdr w ''X-Request-Id''))
     (fst (serve Structured env0 7 3 get_root g0)) = Some (Some 200, Some ''1-7'')
   \<and> map_option (\<lambda>w. (map_option fst (sent w), hdr w ''X-Request-Id''))
       (fst (serve Structured env0 7 3 with_id g0)) = Some (Some 200, Some ''abc'')
   \<and> map entry_of (out (snd (serve Structured env0 7 3 get_root g0)))
       = [(Some (JStr ''request completed''), Some (JInt 200))]
   \<and> reqCounter (snd (serve Structured env0 7 3 get_root g0)) = 1
   \<and> reqCounter (snd (serve Structured env0 7 3 with_id g0)) = 0"
  using middleware_request_id [of env0 7 3 get_root g0, THEN conjunct1]
    middleware_request_id [of env0 7 3 with_id g0, THEN conjunct2, THEN conjunct1]
  by (simp add: run_defs with_id_def g0_def logger_of_def NewLogger_def parseLogLevel_def
      Logger_Info_def Logger_Debug_def Logger_log_def level_defs FormatInt_def FormatUint_small
      digit_def char_of_eq_iff take_bit_eq_mod)

section \<open>The request counter of \<open>Periodic\<close>\<close>

lemma serve_Periodic_requestCount:
  "requestCount (snd (serve Periodic env rnd took r g)) =
     (if path r = ''/health'' then requestCount g else requestCount g + 1)"
  by (simp add: serve_def mux_def split_beta Let_def)

lemma step_requestCount_other:
  assumes "step v env ev c = Some c'" and "\<forall>i rnd took. ev \<noteq> Handle i rnd took"
  shows "requestCount (glob c') = requestCount (glob c)"
proof (cases ev)
  case Spawn
  then show ?thesis
    using assms by (cases v) (auto simp: step.simps Let_def split: if_splits)
next
  case (ListenReturned err)
  then show ?thesis
    using assms by (cases v) (auto simp: step.simps exit_process_def split: if_splits)
next
  case (Signal s)
  then show ?thesis
    using assms by (cases v) (auto simp: step.simps split: if_splits)
next
  case (ShutdownReturned err)
  then show ?thesis
    using assms
    by (cases v; cases err) (auto simp: step.simps exit_process_def split: if_splits)
qed (use assms in \<open>auto simp: step.simps exit_process_def split: if_splits option.splits\<close>)

lemma step_requestCount_Handle:
  assumes "step Periodic env (Handle i rnd took) c = Some c'"
  shows "requestCount (glob c') =
     (if path (inflight c ! i) = ''/health'' then requestCount (glob c)
      else requestCount (glob c) + 1)"
proof -
  have "glob c' = snd (serve Periodic env rnd took (inflight c ! i) (glob c))"
    using assms by (auto simp: step.simps Let_def split_beta split: if_splits option.splits)
  then show ?thesis
    by (simp only: serve_Periodic_requestCount)
qed

lemma word64_succ: "(x :: 64 word) \<noteq> - 1 \<Longrightarrow> unat (x + 1) = Suc (unat x)"
proof -
  assume "x \<noteq> - 1"
  then have "1 + x \<noteq> 0"
    by (metis add.commute add_eq_0_iff)
  then show ?thesis
    using unatSuc [of x] by (simp add: add.commute)
qed

text \<open>
  C9, as amended. \<^verbatim>\<open>requestCount\<close> is a \<^verbatim>\<open>uint64\<close>. Handling a request for a path
  other than \<^verbatim>\<open>/health\<close> (the root handler) adds one to it modulo \<open>2 ^ 64\<close>; handling a
  request for \<^verbatim>\<open>/health\<close> and every other event (heartbeat, worker, signals, shutdown)
  leave it as it is. So no step decreases the counter unless it stands at
  \<open>2 ^ 64 - 1\<close>, where the increment wraps to 0.
\<close>

theorem requestCount_step:
  assumes "step Periodic env ev c = Some c'"
  shows "(\<forall>i rnd took. ev = Handle i rnd took \<longrightarrow>
            (if path (inflight c ! i) = ''/health''
             then requestCount (glob c') = requestCount (glob c)
             else unat (requestCount (glob c')) = (unat (requestCount (glob c)) + 1) mod 2 ^ 64))
       \<and> ((\<forall>i rnd took. ev \<noteq> Handle i rnd took) \<longrightarrow>
            requestCount (glob c') = requestCount (glob c))
       \<and> (requestCount (glob c) \<noteq> - 1 \<longrightarrow>
            unat (requestCount (glob c)) \<le> unat (requestCount (glob c')))"
proof (intro conjI allI impI)
  fix i rnd took
  assume "ev = Handle i rnd took"
  then show "if path (inflight c ! i) = ''/health''
             then requestCount (glob c') = requestCount (glob c)
             else unat (requestCount (glob c')) = (unat (requestCount (glob c)) + 1) mod 2 ^ 64"
    using step_requestCount_Handle [of env i rnd took c c'] assms
    by (simp add: unat_word_ariths)
next
  assume "\<forall>i rnd took. ev \<noteq> Handle i rnd took"
  then show "requestCount (glob c') = requestCount (glob c)"
    using step_requestCount_other [OF assms] by simp
next
  assume nw: "requestCount (glob c) \<noteq> - 1"
  show "unat (requestCount (glob c)) \<le> unat (requestCount (glob c'))"
  proof (cases "\<exists>i rnd took. ev = Handle i rnd took")
    case True
    then obtain i rnd took where "ev = Handle i rnd took" by blast
    then have "requestCount (glob c') = requestCount (glob c)
             \<or> requestCount (glob c') = requestCount (glob c) + 1"
      using step_requestCount_Handle [of env i rnd took c c'] assms by (simp split: if_splits)
    then show ?thesis using word64_succ [OF nw] by auto
  next
    case False
    then show ?thesis using step_requestCount_other [OF assms] by simp
  qed
qed

theorem requestCount_step_witness:
  "map_option (\<lambda>c. requestCount (glob c))
     (step Periodic env0 (Handle 0 0 0) (running\<lparr>inflight := [get_root]\<rparr>)) = Some 1
   \<and> map_option (\<lambda>c. requestCount (glob c))
       (step Periodic env0 (Handle 0 0 0) (running\<lparr>inflight := [get_health]\<rparr>)) = Some 0
   \<and> map_option (\<lambda>c. requestCount (glob c)) (step Periodic env0 HeartbeatTick running) = Some 0"
  using requestCount_step [of env0 "Handle 0 0 0" "running\<lparr>inflight := [get_root]\<rparr>"]
    requestCount_step [of env0 HeartbeatTick running]
  by (simp add: eval_defs running_def)

text \<open>
  The claim as stated (the counter never decreases) fails at the wrap: after
  \<open>2 ^ 64 - 1\<close> requests to the root handler the counter is \<open>2 ^ 64 - 1\<close>, and the next
  one sets it to 0.
\<close>

lemma root_round:
  assumes "exit_status c = None" "mainpc c = MWait" "serving c = Accepting" "inflight c = []"
  shows "\<exists>c'. run Periodic env [Accept get_root, Handle 0 rnd took] c = Some c'
           \<and> exit_status c' = None \<and> mainpc c' = MWait \<and> serving c' = Accepting
           \<and> inflight c' = [] \<and> requestCount (glob c') = requestCount (glob c) + 1"
  using assms by (simp add: eval_defs)

lemma root_rounds:
  "\<exists>c. run Periodic env (Spawn # Bound # concat (replicate n [Accept get_root, Handle 0 0 0])) init
           = Some c
       \<and> exit_status c = None \<and> mainpc c = MWait \<and> serving c = Accepting
       \<and> inflight c = [] \<and> requestCount (glob c) = of_nat n"
proof (induction n)
  case 0
  show ?case by (simp add: eval_defs)
next
  case (Suc n)
  then obtain c where c:
    "run Periodic env (Spawn # Bound # concat (replicate n [Accept get_root, Handle 0 0 0])) init
       = Some c"
    "exit_status c = None" "mainpc c = MWait" "serving c = Accepting" "inflight c = []"
    "requestCount (glob c) = of_nat n"
    by blast
  obtain c' where c':
    "run Periodic env [Accept get_root, Handle 0 0 0] c = Some c'"
    "exit_status c' = None" "mainpc c' = MWait" "serving c' = Accepting" "inflight c' = []"
    "requestCount (glob c') = requestCount (glob c) + 1"
    using root_round [OF c(2-5), of env 0 0] by blast
  have r: "replicate (Suc n) [Accept get_root, Handle 0 0 0]
             = replicate n [Accept get_root, Handle 0 0 0] @ [[Accept get_root, Handle 0 0 0]]"
    by (simp add: replicate_append_same)
  have "run Periodic env
          (Spawn # Bound # concat (replicate (Suc n) [Accept get_root, Handle 0 0 0])) init
        = run Periodic env
          ((Spawn # Bound # concat (replicate n [Accept get_root, Handle 0 0 0]))
             @ [Accept get_root, Handle 0 0 0]) init"
    unfolding r by simp
  also have "\<dots> = Some c'"
    using c(1) c'(1) by (simp only: run_append option.case)
  finally show ?case
    using c' c(6) by auto
qed

theorem requestCount_wraps:
  "map_option (\<lambda>c. unat (requestCount (glob c)))
     (run Periodic env0
        (Spawn # Bound # concat (replicate (2 ^ 64 - 1) [Accept get_root, Handle 0 0 0])) init)
     = Some (2 ^ 64 - 1)
   \<and> map_option (\<lambda>c. unat (requestCount (glob c)))
     (run Periodic env0
        ((Spawn # Bound # concat (replicate (2 ^ 64 - 1) [Accept get_root, Handle 0 0 0]))
           @ [Accept get_root, Handle 0 0 0]) init)
     = Some 0"
proof -
  obtain c where c:
    "run Periodic env0
       (Spawn # Bound # concat (replicate (2 ^ 64 - 1) [Accept get_root, Handle 0 0 0])) init
       = Some c"
    "exit_status c = None" "mainpc c = MWait" "serving c = Accepting" "inflight c = []"
    "requestCount (glob c) = of_nat (2 ^ 64 - 1)"
    using root_rounds [of env0 "2 ^ 64 - 1"] by blast
  have m: "requestCount (glob c) = - 1"
    using c(6) by simp
  obtain c' where c':
    "run Periodic env0 [Accept get_root, Handle 0 0 0] c = Some c'"
    "requestCount (glob c') = requestCount (glob c) + 1"
    using root_round [OF c(2-5), of env0 0 0] by blast
  have "run Periodic env0
          ((Spawn # Bound # concat (replicate (2 ^ 64 - 1) [Accept get_root, Handle 0 0 0]))
             @ [Accept get_root, Handle 0 0 0]) init = Some c'"
    using c(1) c'(1) by (simp only: run_append option.case)
  moreover have "unat (requestCount (glob c)) = 2 ^ 64 - 1"
    using m by (simp add: unsigned_minus_1_eq_mask mask_eq_exp_minus_1)
  moreover have "unat (requestCount (glob c')) = 0"
    using m c'(2) by simp
  ultimately show ?thesis
    using c(1) by (simp only: option.map)
qed

end
